theory Spec2Isabelle
  imports Complex_Main
begin


section \<open>Python values\<close>

text \<open>
  A Python \<open>str\<close> is a sequence of Unicode code points; a code point is a natural number.
  \<open>py\<close> turns an ASCII literal of the source into such a sequence.
\<close>

type_synonym pystr = "nat list"

definition py :: "string \<Rightarrow> pystr" where
  "py s = map of_char s"

text \<open>
  \<open>str.isspace\<close> for one code point, which is also the set \<open>str.strip()\<close> removes:
  U+0009..U+000D, U+001C..U+0020, U+0085, U+00A0, U+1680, U+2000..U+200A, U+2028, U+2029,
  U+202F, U+205F, U+3000.
\<close>

definition isspace :: "nat \<Rightarrow> bool" where
  "isspace c \<longleftrightarrow>
     (9 \<le> c \<and> c \<le> 13) \<or> (28 \<le> c \<and> c \<le> 32) \<or> c = 133 \<or> c = 160 \<or> c = 5760 \<or>
     (8192 \<le> c \<and> c \<le> 8202) \<or> c = 8232 \<or> c = 8233 \<or> c = 8239 \<or> c = 8287 \<or> c = 12288"

definition strip :: "pystr \<Rightarrow> pystr" where
  "strip s = rev (dropWhile isspace (rev (dropWhile isspace s)))"

text \<open>
  What \<open>json.loads\<close> produces: \<open>None\<close>, \<open>bool\<close>, \<open>int\<close>, \<open>str\<close>, \<open>list\<close> and \<open>dict\<close>.
  A \<open>dict\<close> is the list of its items in insertion order; \<open>dict.get\<close> reads it through
  \<open>map_of\<close>. JSON numbers with a fraction or an exponent (Python floats) are not
  represented. The decoder reads an integer through \<open>int()\<close>, so a decoded \<open>int\<close> has at
  most 4300 digits (see \<open>INT_MAX_STR_DIGITS\<close> below) and \<open>str()\<close> of it is always
  produced.
\<close>

datatype json =
    JNull
  | JBool bool
  | JInt int
  | JStr pystr
  | JList "json list"
  | JDict "(pystr \<times> json) list"

text \<open>The exceptions that leave the functions of the source, by class.\<close>

datatype error = AttributeError | TypeError | ValueError | UnicodeEncodeError | OSError

text \<open>Truth value of an object, as \<open>not\<close>, \<open>or\<close> and \<open>if\<close> test it.\<close>

fun truthy :: "json \<Rightarrow> bool" where
  "truthy JNull = False"
| "truthy (JBool b) = b"
| "truthy (JInt n) = (n \<noteq> 0)"
| "truthy (JStr s) = (s \<noteq> [])"
| "truthy (JList xs) = (xs \<noteq> [])"
| "truthy (JDict kv) = (kv \<noteq> [])"

text \<open>\<open>a or b\<close>: \<open>a\<close> when it is true, \<open>b\<close> otherwise.\<close>

definition py_or :: "json \<Rightarrow> json \<Rightarrow> json" where
  "py_or a b = (if truthy a then a else b)"

text \<open>\<open>d.get(k)\<close> on a dict: the value, \<open>None\<close> when the key is absent.\<close>

definition dict_get :: "(pystr \<times> json) list \<Rightarrow> pystr \<Rightarrow> json" where
  "dict_get kv k = (case map_of kv k of None \<Rightarrow> JNull | Some v \<Rightarrow> v)"

text \<open>\<open>d.get(k, default)\<close> on a dict.\<close>

definition dict_get_default :: "(pystr \<times> json) list \<Rightarrow> pystr \<Rightarrow> json \<Rightarrow> json" where
  "dict_get_default kv k dflt = (case map_of kv k of None \<Rightarrow> dflt | Some v \<Rightarrow> v)"

section \<open>Field extraction\<close>

text \<open>
  \<open>first_nonempty(*values)\<close>: the loop over the candidates returns \<open>v.strip()\<close> for the
  first \<open>v\<close> that is a \<open>str\<close> with a non-empty \<open>v.strip()\<close>, and \<open>""\<close> after the loop.
\<close>

fun first_nonempty :: "json list \<Rightarrow> pystr" where
  "first_nonempty [] = []"
| "first_nonempty (v # vs) =
     (case v of
        JStr s \<Rightarrow> if strip s \<noteq> [] then strip s else first_nonempty vs
      | _ \<Rightarrow> first_nonempty vs)"

text \<open>
  \<open>get_nested(d, *path, default)\<close>: each step of the path needs a dict
  (\<open>isinstance(cur, dict)\<close>), otherwise the default is returned; after the path the value
  is returned when it is a \<open>str\<close>, the default otherwise.
\<close>

fun get_nested :: "json \<Rightarrow> pystr list \<Rightarrow> pystr \<Rightarrow> pystr" where
  "get_nested cur [] dflt = (case cur of JStr s \<Rightarrow> s | _ \<Rightarrow> dflt)"
| "get_nested cur (p # ps) dflt =
     (case cur of JDict kv \<Rightarrow> get_nested (dict_get kv p) ps dflt | _ \<Rightarrow> dflt)"

text \<open>
  The extractors call \<open>m.get\<close> on their argument: on anything but a dict this raises
  \<open>AttributeError\<close>. A RawMatch is a dict, \<open>JDict kv\<close>.
\<close>

definition extract_time :: "json \<Rightarrow> error + pystr" where
  "extract_time m =
     (case m of
        JDict kv \<Rightarrow> Inr (first_nonempty
          [dict_get kv (py ''start_date_time''),
           dict_get kv (py ''date''),
           dict_get kv (py ''start_time''),
           dict_get kv (py ''start_datetime'')])
      | _ \<Rightarrow> Inl AttributeError)"

definition extract_location :: "json \<Rightarrow> error + pystr" where
  "extract_location m =
     (case m of
        JDict kv \<Rightarrow> Inr (first_nonempty
          [JStr (get_nested m [py ''court'', py ''venue'', py ''name''] []),
           dict_get kv (py ''venue_name''),
           dict_get kv (py ''facility_name''),
           dict_get kv (py ''location''),
           JStr (get_nested m [py ''venue'', py ''name''] []),
           JStr (get_nested m [py ''facility'', py ''name''] []),
           JStr (get_nested m [py ''site'', py ''name''] [])])
      | _ \<Rightarrow> Inl AttributeError)"

definition extract_court :: "json \<Rightarrow> error + pystr" where
  "extract_court m =
     (case m of
        JDict kv \<Rightarrow> Inr (first_nonempty
          [JStr (get_nested m [py ''court'', py ''court_name''] []),
           dict_get kv (py ''court_name''),
           dict_get kv (py ''court''),
           dict_get kv (py ''field''),
           JStr (get_nested m [py ''court'', py ''name''] []),
           JStr (get_nested m [py ''resource'', py ''name''] [])])
      | _ \<Rightarrow> Inl AttributeError)"

text \<open>
  \<open>extract_home\<close>: when \<open>m.get("home_team")\<close> is a dict, \<open>v\<close> is its \<open>name\<close> or, when that
  is false, its \<open>team_name\<close>; \<open>v.strip()\<close> is returned when \<open>v\<close> is a \<open>str\<close> and the
  stripped value is not empty. In every other case the flat keys go through
  \<open>first_nonempty\<close>.
\<close>

definition extract_home :: "json \<Rightarrow> error + pystr" where
  "extract_home m =
     (case m of
        JDict kv \<Rightarrow>
          (let flat = first_nonempty
                 [dict_get kv (py ''home_name''),
                  dict_get kv (py ''homeTeamName''),
                  dict_get kv (py ''team_home_name'')]
           in case dict_get kv (py ''home_team'') of
                JDict t \<Rightarrow>
                  (case py_or (dict_get t (py ''name'')) (dict_get t (py ''team_name'')) of
                     JStr s \<Rightarrow> if strip s \<noteq> [] then Inr (strip s) else Inr flat
                   | _ \<Rightarrow> Inr flat)
              | _ \<Rightarrow> Inr flat)
      | _ \<Rightarrow> Inl AttributeError)"

definition extract_away :: "json \<Rightarrow> error + pystr" where
  "extract_away m =
     (case m of
        JDict kv \<Rightarrow>
          (let flat = first_nonempty
                 [dict_get kv (py ''away_name''),
                  dict_get kv (py ''awayTeamName''),
                  dict_get kv (py ''team_away_name'')]
           in case dict_get kv (py ''away_team'') of
                JDict t \<Rightarrow>
                  (case py_or (dict_get t (py ''name'')) (dict_get t (py ''team_name'')) of
                     JStr s \<Rightarrow> if strip s \<noteq> [] then Inr (strip s) else Inr flat
                   | _ \<Rightarrow> Inr flat)
              | _ \<Rightarrow> Inr flat)
      | _ \<Rightarrow> Inl AttributeError)"

section \<open>Identifier resolver\<close>

text \<open>
  The regular expression \<open>\d\<close> on a \<open>str\<close> and the built-in \<open>int()\<close> read decimal digits
  from the interpreter's Unicode table. Its ASCII part is \<open>0\<close>..\<open>9\<close>; the decimal digits
  beyond ASCII are the parameter \<open>nd\<close> (code point to digit value).
\<close>

definition digit_value :: "(nat \<Rightarrow> nat option) \<Rightarrow> nat \<Rightarrow> nat option" where
  "digit_value nd c =
     (if c < 128 then (if 48 \<le> c \<and> c \<le> 57 then Some (c - 48) else None) else nd c)"

definition isdigit :: "(nat \<Rightarrow> nat option) \<Rightarrow> nat \<Rightarrow> bool" where
  "isdigit nd c \<longleftrightarrow> digit_value nd c \<noteq> None"

text \<open>
  \<open>int(s)\<close> for a \<open>str\<close>, base 10: white space around the literal is skipped, then an
  optional sign, then digits with single underscores between them. The white space
  \<open>int()\<close> skips is that of \<open>str.strip()\<close> without U+001C..U+001F, which \<open>int()\<close> rejects.
  A literal with more than \<open>INT_MAX_STR_DIGITS\<close> digits is refused with \<open>ValueError\<close>
  (the interpreter's default \<open>sys.int_max_str_digits\<close>, CPython 3.11 and the security
  releases of 3.7 to 3.10); sign, underscores and white space do not count.
\<close>

definition INT_MAX_STR_DIGITS :: nat where
  "INT_MAX_STR_DIGITS = 4300"

definition int_space :: "nat \<Rightarrow> bool" where
  "int_space c \<longleftrightarrow> isspace c \<and> \<not> (28 \<le> c \<and> c \<le> 31)"

fun digits_body :: "(nat \<Rightarrow> nat option) \<Rightarrow> pystr \<Rightarrow> nat \<Rightarrow> nat option" where
  "digits_body nd [] acc = Some acc"
| "digits_body nd (c # cs) acc =
     (case digit_value nd c of
        Some d \<Rightarrow> digits_body nd cs (10 * acc + d)
      | None \<Rightarrow>
          if c = 95 then
            (case cs of
               [] \<Rightarrow> None
             | c' # cs' \<Rightarrow>
                 (case digit_value nd c' of
                    Some d \<Rightarrow> digits_body nd cs' (10 * acc + d)
                  | None \<Rightarrow> None))
          else None)"

definition unsigned_literal :: "(nat \<Rightarrow> nat option) \<Rightarrow> pystr \<Rightarrow> nat option" where
  "unsigned_literal nd s =
     (case s of
        [] \<Rightarrow> None
      | c # cs \<Rightarrow>
          (case digit_value nd c of
             Some d \<Rightarrow>
               (case digits_body nd cs d of
                  Some n \<Rightarrow>
                    if INT_MAX_STR_DIGITS < length (filter (isdigit nd) s) then None else Some n
                | None \<Rightarrow> None)
           | None \<Rightarrow> None))"

definition py_int_str :: "(nat \<Rightarrow> nat option) \<Rightarrow> pystr \<Rightarrow> error + int" where
  "py_int_str nd s =
     (case rev (dropWhile int_space (rev (dropWhile int_space s))) of
        [] \<Rightarrow> Inl ValueError
      | c # cs \<Rightarrow>
          if c = 45 then
            (case unsigned_literal nd cs of Some n \<Rightarrow> Inr (- int n) | None \<Rightarrow> Inl ValueError)
          else if c = 43 then
            (case unsigned_literal nd cs of Some n \<Rightarrow> Inr (int n) | None \<Rightarrow> Inl ValueError)
          else
            (case unsigned_literal nd (c # cs) of
               Some n \<Rightarrow> Inr (int n)
             | None \<Rightarrow> Inl ValueError))"

text \<open>
  The pattern \<open>/event/(\d+)/\<close> tried at the start of \<open>t\<close>; the result is group 1. \<open>/\<close> is
  not a digit, so the greedy \<open>\d+\<close> before \<open>/\<close> can only be the whole run of digits.
\<close>

definition match_event_at :: "(nat \<Rightarrow> nat option) \<Rightarrow> pystr \<Rightarrow> pystr option" where
  "match_event_at nd t =
     (if take 7 t = py ''/event/'' then
        (let r = drop 7 t; ds = takeWhile (isdigit nd) r
         in if ds \<noteq> [] \<and> take 1 (dropWhile (isdigit nd) r) = py ''/'' then Some ds else None)
      else None)"

text \<open>\<open>re.search\<close>: the match at the leftmost position that has one.\<close>

fun re_search_event :: "(nat \<Rightarrow> nat option) \<Rightarrow> pystr \<Rightarrow> pystr option" where
  "re_search_event nd [] = None"
| "re_search_event nd (c # cs) =
     (case match_event_at nd (c # cs) of
        Some g \<Rightarrow> Some g
      | None \<Rightarrow> re_search_event nd cs)"

text \<open>\<open>re.fullmatch(r"\d+", t)\<close>.\<close>

definition fullmatch_digits :: "(nat \<Rightarrow> nat option) \<Rightarrow> pystr \<Rightarrow> bool" where
  "fullmatch_digits nd t \<longleftrightarrow> t \<noteq> [] \<and> list_all (isdigit nd) t"

definition parse_event_id :: "(nat \<Rightarrow> nat option) \<Rightarrow> pystr \<Rightarrow> error + int" where
  "parse_event_id nd s =
     (case re_search_event nd s of
        Some g \<Rightarrow> py_int_str nd g
      | None \<Rightarrow>
          if fullmatch_digits nd (strip s) then py_int_str nd s
          else Inl ValueError)"

section \<open>HTTP fetch layer\<close>

text \<open>
  An exception is known by the handlers that catch it: \<open>except requests.RequestException\<close>
  (tried first) and \<open>except ValueError\<close>. One attempt of \<open>session.get\<close> either raises or
  gives a response with a status code, whose \<open>json()\<close> gives a value or raises.
\<close>

datatype exn = Exn (is_RequestException: bool) (is_ValueError: bool)

datatype body = Parsed json | JsonRaises exn

datatype outcome = GetRaises exn | Response int body

definition MAX_RETRIES :: nat where
  "MAX_RETRIES = 3"

definition BACKOFF :: rat where
  "BACKOFF = 3 / 2"

text \<open>
  The result of \<open>get_json\<close>: what it returns (\<open>JNull\<close> is Python's \<open>None\<close>) or the exception
  that leaves it, the number of attempts made, and the delays slept, in order.
\<close>

record fetched =
  returned :: "exn + json"
  attempts :: nat
  slept :: "rat list"

text \<open>
  The \<open>while True\<close> loop. \<open>http k\<close> is the outcome of the \<open>k\<close>-th call of \<open>session.get\<close>;
  \<open>attempt\<close> is the counter before \<open>attempt += 1\<close>.
\<close>

function get_json_loop :: "(nat \<Rightarrow> outcome) \<Rightarrow> nat \<Rightarrow> rat \<Rightarrow> rat list \<Rightarrow> fetched" where
  "get_json_loop http attempt delay sl =
     (case http (attempt + 1) of
        Response status b \<Rightarrow>
          if status = 429 \<or> (500 \<le> status \<and> status < 600) then
            (if attempt + 1 < MAX_RETRIES
             then get_json_loop http (attempt + 1) (delay * BACKOFF) (sl @ [delay])
             else \<lparr>returned = Inr JNull, attempts = attempt + 1, slept = sl\<rparr>)
          else if 400 \<le> status \<and> status < 600 then
            \<lparr>returned = Inr JNull, attempts = attempt + 1, slept = sl\<rparr>
          else
            (case b of
               Parsed j \<Rightarrow> \<lparr>returned = Inr j, attempts = attempt + 1, slept = sl\<rparr>
             | JsonRaises e \<Rightarrow>
                 if is_RequestException e then
                   (if attempt + 1 < MAX_RETRIES
                    then get_json_loop http (attempt + 1) (delay * BACKOFF) (sl @ [delay])
                    else \<lparr>returned = Inr JNull, attempts = attempt + 1, slept = sl\<rparr>)
                 else if is_ValueError e then
                   \<lparr>returned = Inr JNull, attempts = attempt + 1, slept = sl\<rparr>
                 else \<lparr>returned = Inl e, attempts = attempt + 1, slept = sl\<rparr>)
      | GetRaises e \<Rightarrow>
          if is_RequestException e then
            (if attempt + 1 < MAX_RETRIES
             then get_json_loop http (attempt + 1) (delay * BACKOFF) (sl @ [delay])
             else \<lparr>returned = Inr JNull, attempts = attempt + 1, slept = sl\<rparr>)
          else if is_ValueError e then
            \<lparr>returned = Inr JNull, attempts = attempt + 1, slept = sl\<rparr>
          else \<lparr>returned = Inl e, attempts = attempt + 1, slept = sl\<rparr>)"
  by pat_completeness auto
termination
  by (relation "measure (\<lambda>(http, attempt, delay, sl). MAX_RETRIES - attempt)") auto

definition get_json :: "(nat \<Rightarrow> outcome) \<Rightarrow> fetched" where
  "get_json http = get_json_loop http 0 BACKOFF []"

section \<open>Division enumerator\<close>

text \<open>
  \<open>for x in v\<close>: a list gives its elements, a \<open>str\<close> its characters, a dict its keys;
  \<open>None\<close>, a \<open>bool\<close> and an \<open>int\<close> are not iterable (\<open>TypeError\<close>).
\<close>

fun py_iter :: "json \<Rightarrow> error + json list" where
  "py_iter (JList xs) = Inr xs"
| "py_iter (JStr s) = Inr (map (\<lambda>c. JStr [c]) s)"
| "py_iter (JDict kv) = Inr (map (\<lambda>(k, v). JStr k) kv)"
| "py_iter JNull = Inl TypeError"
| "py_iter (JBool b) = Inl TypeError"
| "py_iter (JInt n) = Inl TypeError"

text \<open>The decimal digits of a natural number, as \<open>str()\<close> and an f-string write them.\<close>

fun digit_chars :: "nat \<Rightarrow> pystr" where
  "digit_chars n = (if n < 10 then [48 + n] else digit_chars (n div 10) @ [48 + n mod 10])"

text \<open>\<open>str(n)\<close> for an \<open>int\<close>.\<close>

definition int_str :: "int \<Rightarrow> pystr" where
  "int_str n = (if n < 0 then 45 # digit_chars (nat (- n)) else digit_chars (nat n))"

text \<open>
  \<open>str(v)\<close>, which is what \<open>f"{v}"\<close> inserts, for \<open>None\<close>, a \<open>bool\<close>, an \<open>int\<close> and a \<open>str\<close>.
  The text of a list or a dict is not modelled (\<open>None\<close>).
\<close>

fun py_str :: "json \<Rightarrow> pystr option" where
  "py_str JNull = Some (py ''None'')"
| "py_str (JBool b) = Some (if b then py ''True'' else py ''False'')"
| "py_str (JInt n) = Some (int_str n)"
| "py_str (JStr s) = Some s"
| "py_str (JList xs) = None"
| "py_str (JDict kv) = None"

text \<open>\<open>int(v)\<close>: an \<open>int\<close> is itself, a \<open>bool\<close> is 0 or 1, a \<open>str\<close> is parsed; \<open>None\<close>, a list
  and a dict raise \<open>TypeError\<close>.\<close>

fun py_int :: "(nat \<Rightarrow> nat option) \<Rightarrow> json \<Rightarrow> error + int" where
  "py_int nd (JInt n) = Inr n"
| "py_int nd (JBool b) = Inr (if b then 1 else 0)"
| "py_int nd (JStr s) = py_int_str nd s"
| "py_int nd JNull = Inl TypeError"
| "py_int nd (JList xs) = Inl TypeError"
| "py_int nd (JDict kv) = Inl TypeError"

text \<open>
  The loop \<open>for d in divisions\<close> with the list \<open>out\<close>. \<open>d.get\<close> needs a dict. The label
  \<open>f"Division {div_id}"\<close> of a list or dict \<open>div_id\<close> is never seen: \<open>int(div_id)\<close> raises
  \<open>TypeError\<close> right after it is built.
\<close>

fun divisions_loop ::
  "(nat \<Rightarrow> nat option) \<Rightarrow> json list \<Rightarrow> (int \<times> json) list \<Rightarrow> error + (int \<times> json) list" where
  "divisions_loop nd [] out = Inr out"
| "divisions_loop nd (d # ds) out =
     (case d of
        JDict kv \<Rightarrow>
          (let div_id = dict_get kv (py ''id'')
           in case py_str div_id of
                None \<Rightarrow> Inl TypeError
              | Some txt \<Rightarrow>
                  (let div_name =
                         py_or (dict_get kv (py ''division_name''))
                           (py_or (dict_get kv (py ''name'')) (JStr (py ''Division '' @ txt)))
                   in if div_id \<noteq> JNull then
                        (case py_int nd div_id of
                           Inl e \<Rightarrow> Inl e
                         | Inr n \<Rightarrow> divisions_loop nd ds (out @ [(n, div_name)]))
                      else divisions_loop nd ds out))
      | _ \<Rightarrow> Inl AttributeError)"

text \<open>
  \<open>get_divisions\<close>, given what \<open>get_json\<close> returned for the tournament endpoint (\<open>JNull\<close>
  when it returned \<open>None\<close>). Each \<open>.get\<close> of the chain needs a dict.
\<close>

definition get_divisions :: "(nat \<Rightarrow> nat option) \<Rightarrow> json \<Rightarrow> error + (int \<times> json) list" where
  "get_divisions nd r =
     (case py_or r (JDict []) of
        JDict kv \<Rightarrow>
          (case dict_get_default kv (py ''content'') (JDict []) of
             JDict c \<Rightarrow>
               (case dict_get_default c (py ''tournament'') (JDict []) of
                  JDict t \<Rightarrow>
                    (case py_iter (dict_get_default t (py ''divisions'') (JList [])) of
                       Inl e \<Rightarrow> Inl e
                     | Inr ds \<Rightarrow> divisions_loop nd ds [])
                | _ \<Rightarrow> Inl AttributeError)
           | _ \<Rightarrow> Inl AttributeError)
      | _ \<Rightarrow> Inl AttributeError)"

section \<open>Match paginator\<close>

definition MATCHES_PER_PAGE :: nat where
  "MATCHES_PER_PAGE = 20"

text \<open>
  The value of \<open>matches\<close> for one page, given what \<open>get_json\<close> returned:
  \<open>(data.get("content", {}) or {}).get("matches", []) or []\<close> with \<open>data = ... or {}\<close>.
\<close>

definition page_matches :: "json \<Rightarrow> error + json" where
  "page_matches r =
     (case py_or r (JDict []) of
        JDict kv \<Rightarrow>
          (case py_or (dict_get_default kv (py ''content'') (JDict [])) (JDict []) of
             JDict c \<Rightarrow> Inr (py_or (dict_get_default c (py ''matches'') (JList [])) (JList []))
           | _ \<Rightarrow> Inl AttributeError)
      | _ \<Rightarrow> Inl AttributeError)"

text \<open>
  A \<open>for\<close> loop over the items a generator yields runs its body at each \<open>yield\<close>. \<open>body\<close>
  is that loop body, on a state; when it raises, the state is the one before the item.
\<close>

fun for_each :: "('s \<Rightarrow> json \<Rightarrow> error + 's) \<Rightarrow> json list \<Rightarrow> 's \<Rightarrow> error option \<times> 's" where
  "for_each body [] s = (None, s)"
| "for_each body (m # ms) s =
     (case body s m of
        Inl e \<Rightarrow> (Some e, s)
      | Inr s' \<Rightarrow> for_each body ms s')"

text \<open>
  The \<open>while True\<close> loop of \<open>iter_matches\<close>, consumed by a \<open>for\<close> loop with body \<open>body\<close>.
  \<open>fetch p\<close> is what \<open>get_json\<close> returns for page \<open>p\<close>. Pages are requested from 1 on, one
  call of \<open>get_json\<close> each, so the page reached is the number of calls made. The result
  is the exception raised, if any, that number, and the state of the consumer. A loop
  that never ends has no result (\<open>None\<close>). The sleep between pages is left out.
\<close>

partial_function (option) iter_loop ::
  "(nat \<Rightarrow> json) \<Rightarrow> ('s \<Rightarrow> json \<Rightarrow> error + 's) \<Rightarrow> nat \<Rightarrow> 's \<Rightarrow> (error option \<times> nat \<times> 's) option" where
  "iter_loop fetch body page s =
     (case page_matches (fetch page) of
        Inl e \<Rightarrow> Some (Some e, page, s)
      | Inr matches \<Rightarrow>
          if \<not> truthy matches then Some (None, page, s)
          else
            (case py_iter matches of
               Inl e \<Rightarrow> Some (Some e, page, s)
             | Inr items \<Rightarrow>
                 (case for_each body items s of
                    (Some e, s') \<Rightarrow> Some (Some e, page, s')
                  | (None, s') \<Rightarrow>
                      if length items < MATCHES_PER_PAGE then Some (None, page, s')
                      else iter_loop fetch body (page + 1) s')))"

text \<open>\<open>list(iter_matches(...))\<close>: the consumer collects what is yielded.\<close>

definition iter_matches :: "(nat \<Rightarrow> json) \<Rightarrow> (error option \<times> nat \<times> json list) option" where
  "iter_matches fetch = iter_loop fetch (\<lambda>acc m. Inr (acc @ [m])) 1 []"

section \<open>Export orchestrator\<close>

record schedule_row =
  game_start_time :: pystr
  location :: pystr
  court :: pystr
  division :: json
  home_team :: pystr
  away_team :: pystr

text \<open>
  The output file is opened with \<open>encoding="utf-8"\<close> and the default error handling, so
  writing text that holds a surrogate code point (U+D800..U+DFFF, which a JSON escape such
  as \<open>\ud800\<close> puts into a \<open>str\<close>) raises \<open>UnicodeEncodeError\<close>.
\<close>

definition surrogate :: "nat \<Rightarrow> bool" where
  "surrogate c \<longleftrightarrow> 55296 \<le> c \<and> c \<le> 57343"

definition encodable :: "pystr \<Rightarrow> bool" where
  "encodable s \<longleftrightarrow> list_all (\<lambda>c. \<not> surrogate c) s"

text \<open>
  The text the csv writer makes of a field that is not a \<open>str\<close> is empty for \<open>None\<close> and
  \<open>str(v)\<close> otherwise; \<open>str\<close> of a number, a list or a dict is printable text, in which
  \<open>repr\<close> writes a surrogate as an escape. Only a \<open>str\<close> field can fail to encode.
\<close>

definition field_encodable :: "json \<Rightarrow> bool" where
  "field_encodable v = (case v of JStr s \<Rightarrow> encodable s | _ \<Rightarrow> True)"

definition row_encodable :: "schedule_row \<Rightarrow> bool" where
  "row_encodable r \<longleftrightarrow>
     encodable (game_start_time r) \<and> encodable (location r) \<and> encodable (court r) \<and>
     field_encodable (division r) \<and> encodable (home_team r) \<and> encodable (away_team r)"

text \<open>
  \<open>w.writerow(row)\<close> on the open file, whose rows so far are \<open>rows\<close>: the line of the row is
  built and written in one piece, so a row that cannot be encoded leaves the file as it
  was. The device is taken to accept what is written.
\<close>

definition writerow :: "schedule_row list \<Rightarrow> schedule_row \<Rightarrow> error + schedule_row list" where
  "writerow rows r = (if row_encodable r then Inr (rows @ [r]) else Inl UnicodeEncodeError)"

text \<open>
  The body of the inner \<open>for\<close> loop of \<open>run\<close>: the six values are computed in the order
  of the dict display, then the row is written.
\<close>

definition write_row :: "json \<Rightarrow> schedule_row list \<Rightarrow> json \<Rightarrow> error + schedule_row list" where
  "write_row div_name rows m =
     (case extract_time m of Inl e \<Rightarrow> Inl e | Inr t \<Rightarrow>
     (case extract_location m of Inl e \<Rightarrow> Inl e | Inr l \<Rightarrow>
     (case extract_court m of Inl e \<Rightarrow> Inl e | Inr c \<Rightarrow>
     (case extract_home m of Inl e \<Rightarrow> Inl e | Inr h \<Rightarrow>
     (case extract_away m of Inl e \<Rightarrow> Inl e | Inr a \<Rightarrow>
        writerow rows \<lparr>game_start_time = t, location = l, court = c, division = div_name,
                       home_team = h, away_team = a\<rparr>)))))"

text \<open>
  A request of the run: the tournament endpoint with the tournament id, or the schedule
  endpoint with tournament id, division id and page (the other parameters are constants).
  \<open>net k q\<close> is what the \<open>k\<close>-th call of \<open>get_json\<close> in the run returns for the request \<open>q\<close>.
\<close>

datatype request = PublicTournament int | DivisionSchedule int int nat

text \<open>
  The loop \<open>for div_id, div_name in divisions\<close>. \<open>calls\<close> counts the calls of \<open>get_json\<close>
  made so far. The result is the exception raised, if any, the calls and the rows
  written.
\<close>

fun run_divisions ::
  "(nat \<Rightarrow> request \<Rightarrow> json) \<Rightarrow> int \<Rightarrow> (int \<times> json) list \<Rightarrow> nat \<Rightarrow> schedule_row list \<Rightarrow>
     (error option \<times> nat \<times> schedule_row list) option" where
  "run_divisions net tid [] calls rows = Some (None, calls, rows)"
| "run_divisions net tid ((div_id, div_name) # rest) calls rows =
     (case iter_loop (\<lambda>p. net (calls + p) (DivisionSchedule tid div_id p)) (write_row div_name) 1 rows of
        None \<Rightarrow> None
      | Some (Some e, n, rows') \<Rightarrow> Some (Some e, calls + n, rows')
      | Some (None, n, rows') \<Rightarrow> run_divisions net tid rest (calls + n) rows')"

text \<open>\<open>token or os.environ.get(...) or "<literal>"\<close> on optional strings.\<close>

definition str_or :: "pystr option \<Rightarrow> pystr option \<Rightarrow> pystr option" where
  "str_or a b = (case a of Some (c # cs) \<Rightarrow> a | _ \<Rightarrow> b)"

text \<open>
  How a run ends: \<open>return\<close> with an exit code, or an exception that leaves \<open>run\<close>.
\<close>

datatype ending = Exit int | Raised error

record run_result =
  ending :: ending
  calls :: nat
  rows :: "schedule_row list"

text \<open>
  What a run meets outside the network. \<open>open_raises\<close> is the exception that
  \<open>open(out_csv, "w", ...)\<close> raises, if any (\<open>OSError\<close> for a path that cannot be opened).
  \<open>print_raises\<close> is the exception that the closing \<open>print\<close> of the row count and the path
  raises, if any (\<open>UnicodeEncodeError\<close> for a path that standard output cannot encode).
\<close>

record outputs =
  open_raises :: "error option"
  print_raises :: "error option"

text \<open>
  \<open>run\<close>. \<open>token\<close> is the argument, \<open>env\<close> the value of the environment variable, if set;
  \<open>literal\<close> is the string literal that ends the \<open>or\<close> chain in the source. The file is
  opened after the divisions were fetched. \<open>w.writeheader()\<close> writes the six field names,
  which are ASCII; \<open>rows\<close> are the data rows written after it. A run whose pagination
  never ends has no result. The messages to standard error, whose error handler replaces
  what it cannot encode, and the sleeps between pages and divisions are left out.
\<close>

definition run ::
  "(nat \<Rightarrow> nat option) \<Rightarrow> pystr \<Rightarrow> (nat \<Rightarrow> request \<Rightarrow> json) \<Rightarrow> outputs \<Rightarrow> pystr \<Rightarrow>
     pystr option \<Rightarrow> pystr option \<Rightarrow> run_result option" where
  "run nd literal net out event_ref token env =
     (case parse_event_id nd event_ref of
        Inl e \<Rightarrow> Some \<lparr>ending = Raised e, calls = 0, rows = []\<rparr>
      | Inr tid \<Rightarrow>
          (case str_or token (str_or env (Some literal)) of
             Some (c # cs) \<Rightarrow>
               (case get_divisions nd (net 1 (PublicTournament tid)) of
                  Inl e \<Rightarrow> Some \<lparr>ending = Raised e, calls = 1, rows = []\<rparr>
                | Inr [] \<Rightarrow> Some \<lparr>ending = Exit 1, calls = 1, rows = []\<rparr>
                | Inr divisions \<Rightarrow>
                    (case open_raises out of
                       Some e \<Rightarrow> Some \<lparr>ending = Raised e, calls = 1, rows = []\<rparr>
                     | None \<Rightarrow>
                         (case run_divisions net tid divisions 1 [] of
                            None \<Rightarrow> None
                          | Some (Some e, n, rs) \<Rightarrow> Some \<lparr>ending = Raised e, calls = n, rows = rs\<rparr>
                          | Some (None, n, rs) \<Rightarrow>
                              (case print_raises out of
                                 Some e \<Rightarrow> Some \<lparr>ending = Raised e, calls = n, rows = rs\<rparr>
                               | None \<Rightarrow> Some \<lparr>ending = Exit 0, calls = n, rows = rs\<rparr>))))
           | _ \<Rightarrow> Some \<lparr>ending = Exit 2, calls = 0, rows = []\<rparr>))"

section \<open>Notions of the specification\<close>

text \<open>
  The definitions of this section are not code of the repository: they state what the
  specification speaks of, to compare the code with.
\<close>

text \<open>A candidate that is a string with non-whitespace content.\<close>

definition nonblank :: "json \<Rightarrow> bool" where
  "nonblank v = (case v of JStr s \<Rightarrow> strip s \<noteq> [] | _ \<Rightarrow> False)"

text \<open>
  Following a key path through nested records: the value at the end of the path, or
  \<open>None\<close> when a key on the way is absent or the value reached before a key is not a
  record.
\<close>

fun walk :: "json \<Rightarrow> pystr list \<Rightarrow> json option" where
  "walk cur [] = Some cur"
| "walk (JDict kv) (p # ps) = (case map_of kv p of None \<Rightarrow> None | Some v \<Rightarrow> walk v ps)"
| "walk cur (p # ps) = None"

text \<open>A string without leading or trailing white space.\<close>

definition trimmed :: "pystr \<Rightarrow> bool" where
  "trimmed s \<longleftrightarrow> s = [] \<or> (\<not> isspace (hd s) \<and> \<not> isspace (last s))"

text \<open>
  An attempt the fetch layer is to retry: a rate-limit status (429), a server-error
  status (5xx), or a transport-level failure (\<open>session.get\<close> raises a
  \<open>RequestException\<close>).
\<close>

definition retryable :: "outcome \<Rightarrow> bool" where
  "retryable oc =
     (case oc of
        Response status b \<Rightarrow> status = 429 \<or> (500 \<le> status \<and> status < 600)
      | GetRaises e \<Rightarrow> is_RequestException e)"

text \<open>A successful attempt: a status that is no error status, and a body that parses to \<open>j\<close>.\<close>

definition succeeds :: "outcome \<Rightarrow> json \<Rightarrow> bool" where
  "succeeds oc j =
     (case oc of
        Response status b \<Rightarrow> \<not> (400 \<le> status \<and> status < 600) \<and> b = Parsed j
      | GetRaises e \<Rightarrow> False)"

text \<open>A response of the schedule endpoint that carries the matches \<open>ms\<close>.\<close>

definition schedule_response :: "json list \<Rightarrow> json" where
  "schedule_response ms = JDict [(py ''content'', JDict [(py ''matches'', JList ms)])]"

text \<open>
  The display name of a division record whose id is the integer \<open>n\<close>: \<open>division_name\<close> is
  preferred, then \<open>name\<close>, then the label \<open>Division n\<close>.
\<close>

definition display_name :: "(pystr \<times> json) list \<Rightarrow> int \<Rightarrow> json" where
  "display_name r n =
     (if truthy (dict_get r (py ''division_name'')) then dict_get r (py ''division_name'')
      else if truthy (dict_get r (py ''name'')) then dict_get r (py ''name'')
      else JStr (py ''Division '' @ int_str n))"

text \<open>
  The Division read from one division record: none when the record lacks an id (the key is
  absent or holds \<open>null\<close>), the pair of id and display name when the id is an integer.
\<close>

definition division_of :: "json \<Rightarrow> (int \<times> json) option" where
  "division_of d =
     (case d of
        JDict r \<Rightarrow> (case dict_get r (py ''id'') of JInt n \<Rightarrow> Some (n, display_name r n) | _ \<Rightarrow> None)
      | _ \<Rightarrow> None)"

text \<open>A division record with an integer id or without an id.\<close>

definition plain_record :: "json \<Rightarrow> bool" where
  "plain_record d =
     (case d of
        JDict r \<Rightarrow> (case dict_get r (py ''id'') of JInt n \<Rightarrow> True | JNull \<Rightarrow> True | _ \<Rightarrow> False)
      | _ \<Rightarrow> False)"

text \<open>A response of the tournament endpoint that carries the division records \<open>ds\<close>.\<close>

definition tournament_response :: "json list \<Rightarrow> json" where
  "tournament_response ds =
     JDict [(py ''content'', JDict [(py ''tournament'', JDict [(py ''divisions'', JList ds)])])]"

text \<open>A RawMatch is a record.\<close>

definition is_record :: "json \<Rightarrow> bool" where
  "is_record m = (case m of JDict kv \<Rightarrow> True | _ \<Rightarrow> False)"

text \<open>The value an extractor returned; the empty string stands in when it raised.\<close>

definition got :: "error + pystr \<Rightarrow> pystr" where
  "got x = (case x of Inr t \<Rightarrow> t | Inl e \<Rightarrow> [])"

text \<open>
  The ScheduleRow of a match found while paginating the division with display name
  \<open>div_name\<close>.
\<close>

definition row_of :: "json \<Rightarrow> json \<Rightarrow> schedule_row" where
  "row_of div_name m =
     \<lparr>game_start_time = got (extract_time m), location = got (extract_location m),
      court = got (extract_court m), division = div_name,
      home_team = got (extract_home m), away_team = got (extract_away m)\<rparr>"

text \<open>
  A match that can be written under the display name \<open>div_name\<close>: a record whose row can be
  encoded.
\<close>

definition writable :: "json \<Rightarrow> json \<Rightarrow> bool" where
  "writable div_name m \<longleftrightarrow> is_record m \<and> row_encodable (row_of div_name m)"

text \<open>
  The paginations of a run, one division after the other: for each division the matches
  its pagination yields, and the number of \<open>get_json\<close> calls made when the last one ends.
  There is a result when every pagination ends, without an exception.
\<close>

fun paginations ::
  "(nat \<Rightarrow> request \<Rightarrow> json) \<Rightarrow> int \<Rightarrow> (int \<times> json) list \<Rightarrow> nat \<Rightarrow> (json list list \<times> nat) option" where
  "paginations net tid [] c = Some ([], c)"
| "paginations net tid ((div_id, div_name) # rest) c =
     (case iter_matches (\<lambda>p. net (c + p) (DivisionSchedule tid div_id p)) of
        Some (None, n, ms) \<Rightarrow>
          (case paginations net tid rest (c + n) of
             Some (mss, c') \<Rightarrow> Some (ms # mss, c')
           | None \<Rightarrow> None)
      | _ \<Rightarrow> None)"

text \<open>The rows of a run: division after division, each division's matches in order.\<close>

fun rows_of :: "(int \<times> json) list \<Rightarrow> json list list \<Rightarrow> schedule_row list" where
  "rows_of ((div_id, div_name) # rest) (ms # mss) = map (row_of div_name) ms @ rows_of rest mss"
| "rows_of divs mss = []"

text \<open>Every match of every division can be written under the division's display name.\<close>

fun all_writable :: "(int \<times> json) list \<Rightarrow> json list list \<Rightarrow> bool" where
  "all_writable ((div_id, div_name) # rest) (ms # mss)
     \<longleftrightarrow> list_all (writable div_name) ms \<and> all_writable rest mss"
| "all_writable divs mss \<longleftrightarrow> True"

text \<open>
  A tournament with two divisions, named A and B, with the internal ids \<open>i1\<close> and \<open>i2\<close>: the
  first call of \<open>get_json\<close> returns the two division records, the second call the one page
  of matches \<open>xs\<close>, the third call the one page of matches \<open>ys\<close>.
\<close>

definition two_divisions :: "int \<Rightarrow> int \<Rightarrow> json list \<Rightarrow> json list \<Rightarrow> nat \<Rightarrow> request \<Rightarrow> json" where
  "two_divisions i1 i2 xs ys k q =
     (if k = 1 then tournament_response
        [JDict [(py ''id'', JInt i1), (py ''division_name'', JStr (py ''A''))],
         JDict [(py ''id'', JInt i2), (py ''division_name'', JStr (py ''B''))]]
      else if k = 2 then schedule_response xs
      else if k = 3 then schedule_response ys
      else JNull)"

text \<open>The number a string of decimal digits denotes.\<close>

definition decimal :: "(nat \<Rightarrow> nat option) \<Rightarrow> pystr \<Rightarrow> nat" where
  "decimal nd ds =
     foldl (\<lambda>a c. 10 * a + (case digit_value nd c of Some d \<Rightarrow> d | None \<Rightarrow> 0)) 0 ds"

section \<open>Properties of the field extractors\<close>

subsection \<open>Stripping\<close>

lemma strip_prefix: "\<exists>r. dropWhile isspace s = strip s @ r"
proof -
  let ?t = "dropWhile isspace s"
  have "?t = rev (rev ?t)" by simp
  also have "\<dots> = rev (takeWhile isspace (rev ?t) @ dropWhile isspace (rev ?t))"
    by (simp only: takeWhile_dropWhile_id)
  also have "\<dots> = strip s @ rev (takeWhile isspace (rev ?t))"
    by (simp only: rev_append strip_def)
  finally show ?thesis by blast
qed

lemma strip_hd: "strip s \<noteq> [] \<Longrightarrow> \<not> isspace (hd (strip s))"
proof -
  assume ne: "strip s \<noteq> []"
  obtain r where r: "dropWhile isspace s = strip s @ r" using strip_prefix by blast
  then have "dropWhile isspace s \<noteq> []" using ne by simp
  then have "\<not> isspace (hd (dropWhile isspace s))" by (rule hd_dropWhile)
  then show ?thesis using r ne by simp
qed

lemma strip_last: "strip s \<noteq> [] \<Longrightarrow> \<not> isspace (last (strip s))"
  by (simp add: strip_def last_rev hd_dropWhile)

lemma strip_fixed: "s \<noteq> [] \<Longrightarrow> \<not> isspace (hd s) \<Longrightarrow> \<not> isspace (last s) \<Longrightarrow> strip s = s"
proof -
  assume a: "s \<noteq> []" "\<not> isspace (hd s)" "\<not> isspace (last s)"
  then have 1: "dropWhile isspace s = s" by (cases s) auto
  from a have "rev s \<noteq> []" "\<not> isspace (hd (rev s))" by (simp_all add: hd_rev)
  then have 2: "dropWhile isspace (rev s) = rev s" by (cases "rev s") auto
  show ?thesis by (simp add: strip_def 1 2)
qed

lemma strip_idem: "strip (strip s) = strip s"
proof (cases "strip s = []")
  case True
  have "strip [] = []" by (simp add: strip_def)
  with True show ?thesis by simp
next
  case False then show ?thesis by (simp add: strip_fixed strip_hd strip_last)
qed

subsection \<open>The helpers\<close>

lemma first_nonempty_skip: "\<not> nonblank v \<Longrightarrow> first_nonempty (v # vs) = first_nonempty vs"
  by (cases v) (simp_all add: nonblank_def)

lemma first_nonempty_take: "strip s \<noteq> [] \<Longrightarrow> first_nonempty (JStr s # vs) = strip s"
  by simp





lemma first_nonempty_trimmed: "trimmed (first_nonempty vs)"
proof (induction vs)
  case Nil show ?case by (simp add: trimmed_def)
next
  case (Cons v vs)
  show ?case
  proof (cases "nonblank v")
    case True
    then obtain s where "v = JStr s" "strip s \<noteq> []" by (cases v) (auto simp: nonblank_def)
    then show ?thesis by (simp add: trimmed_def strip_hd strip_last)
  next
    case False
    then show ?thesis using Cons.IH by (simp add: first_nonempty_skip del: first_nonempty.simps(2))
  qed
qed

lemma first_nonempty_strip: "strip (first_nonempty vs) = first_nonempty vs"
proof (induction vs)
  case Nil show ?case by (simp add: strip_def)
next
  case (Cons v vs)
  show ?case
  proof (cases "nonblank v")
    case True
    then obtain s where "v = JStr s" "strip s \<noteq> []" by (cases v) (auto simp: nonblank_def)
    then show ?thesis by (simp add: strip_idem)
  next
    case False
    then show ?thesis using Cons.IH by (simp add: first_nonempty_skip del: first_nonempty.simps(2))
  qed
qed


lemma strip_trimmed: "trimmed (strip s)"
  unfolding trimmed_def using strip_hd [of s] strip_last [of s] by blast

lemma strip_Nil: "strip [] = []"
  by (simp add: strip_def)


lemma extract_time_value:
  "extract_time (JDict kv) = Inr (first_nonempty
     [dict_get kv (py ''start_date_time''), dict_get kv (py ''date''),
      dict_get kv (py ''start_time''), dict_get kv (py ''start_datetime'')])"
  by (simp only: extract_time_def json.case)

lemma extract_location_value: "\<exists>vs. extract_location (JDict kv) = Inr (first_nonempty vs)"
  by (simp only: extract_location_def json.case) blast

lemma extract_court_value: "\<exists>vs. extract_court (JDict kv) = Inr (first_nonempty vs)"
  by (simp only: extract_court_def json.case) blast

lemma extract_home_value:
  "extract_home (JDict kv) = Inr (first_nonempty
      [dict_get kv (py ''home_name''), dict_get kv (py ''homeTeamName''),
       dict_get kv (py ''team_home_name'')]) \<or>
   (\<exists>s. extract_home (JDict kv) = Inr (strip s))"
  by (simp only: extract_home_def json.case Let_def split: json.split if_split) blast

lemma extract_away_value:
  "extract_away (JDict kv) = Inr (first_nonempty
      [dict_get kv (py ''away_name''), dict_get kv (py ''awayTeamName''),
       dict_get kv (py ''team_away_name'')]) \<or>
   (\<exists>s. extract_away (JDict kv) = Inr (strip s))"
  by (simp only: extract_away_def json.case Let_def split: json.split if_split) blast

lemma extractors_trimmed:
  "\<exists>t. extract_time (JDict kv) = Inr t \<and> trimmed t"
  "\<exists>t. extract_location (JDict kv) = Inr t \<and> trimmed t"
  "\<exists>t. extract_court (JDict kv) = Inr t \<and> trimmed t"
  "\<exists>t. extract_home (JDict kv) = Inr t \<and> trimmed t"
  "\<exists>t. extract_away (JDict kv) = Inr t \<and> trimmed t"
  using extract_time_value [of kv] extract_location_value [of kv] extract_court_value [of kv]
    extract_home_value [of kv] extract_away_value [of kv] first_nonempty_trimmed strip_trimmed
  by metis+





subsection \<open>Team names\<close>

lemma extract_home_nested:
  "dict_get kv (py ''home_team'') = JDict t \<Longrightarrow>
   py_or (dict_get t (py ''name'')) (dict_get t (py ''team_name'')) = JStr a \<Longrightarrow>
   strip a \<noteq> [] \<Longrightarrow> extract_home (JDict kv) = Inr (strip a)"
  by (simp add: extract_home_def Let_def del: first_nonempty.simps)

lemma extract_home_flat_nested:
  "dict_get kv (py ''home_team'') = JDict t \<Longrightarrow>
   \<not> nonblank (py_or (dict_get t (py ''name'')) (dict_get t (py ''team_name''))) \<Longrightarrow>
   extract_home (JDict kv) = Inr (first_nonempty
      [dict_get kv (py ''home_name''), dict_get kv (py ''homeTeamName''),
       dict_get kv (py ''team_home_name'')])"
  by (cases "py_or (dict_get t (py ''name'')) (dict_get t (py ''team_name''))")
     (simp_all add: extract_home_def Let_def nonblank_def del: first_nonempty.simps)

lemma extract_home_flat:
  "\<forall>t. dict_get kv (py ''home_team'') \<noteq> JDict t \<Longrightarrow>
   extract_home (JDict kv) = Inr (first_nonempty
      [dict_get kv (py ''home_name''), dict_get kv (py ''homeTeamName''),
       dict_get kv (py ''team_home_name'')])"
  by (cases "dict_get kv (py ''home_team'')")
     (simp_all add: extract_home_def Let_def del: first_nonempty.simps)

lemma extract_away_nested:
  "dict_get kv (py ''away_team'') = JDict t \<Longrightarrow>
   py_or (dict_get t (py ''name'')) (dict_get t (py ''team_name'')) = JStr a \<Longrightarrow>
   strip a \<noteq> [] \<Longrightarrow> extract_away (JDict kv) = Inr (strip a)"
  by (simp add: extract_away_def Let_def del: first_nonempty.simps)

lemma extract_away_flat_nested:
  "dict_get kv (py ''away_team'') = JDict t \<Longrightarrow>
   \<not> nonblank (py_or (dict_get t (py ''name'')) (dict_get t (py ''team_name''))) \<Longrightarrow>
   extract_away (JDict kv) = Inr (first_nonempty
      [dict_get kv (py ''away_name''), dict_get kv (py ''awayTeamName''),
       dict_get kv (py ''team_away_name'')])"
  by (cases "py_or (dict_get t (py ''name'')) (dict_get t (py ''team_name''))")
     (simp_all add: extract_away_def Let_def nonblank_def del: first_nonempty.simps)

lemma extract_away_flat:
  "\<forall>t. dict_get kv (py ''away_team'') \<noteq> JDict t \<Longrightarrow>
   extract_away (JDict kv) = Inr (first_nonempty
      [dict_get kv (py ''away_name''), dict_get kv (py ''awayTeamName''),
       dict_get kv (py ''team_away_name'')])"
  by (cases "dict_get kv (py ''away_team'')")
     (simp_all add: extract_away_def Let_def del: first_nonempty.simps)

lemma py_or_left: "truthy a \<Longrightarrow> py_or a b = a"
  by (simp add: py_or_def)

lemma py_or_right: "\<not> truthy a \<Longrightarrow> py_or a b = b"
  by (simp add: py_or_def)

text \<open>
  The nested \<open>team_name\<close> is read only when the nested \<open>name\<close> is false (absent, \<open>None\<close>,
  empty, zero): a \<open>name\<close> of white space is true, is taken as \<open>v\<close>, fails the check and
  sends the extractor to the flat keys, although \<open>team_name\<close> is a non-whitespace string.
\<close>

theorem extract_home_blank_name_counterexample:
  "\<not> nonblank (JStr (py ''  '')) \<and> nonblank (JStr (py ''T'')) \<and>
   extract_home (JDict
     [(py ''home_team'', JDict [(py ''name'', JStr (py ''  '')), (py ''team_name'', JStr (py ''T''))]),
      (py ''home_name'', JStr (py ''B''))]) = Inr (py ''B'') \<and>
   extract_home (JDict
     [(py ''home_team'', JDict [(py ''name'', JStr (py ''  '')), (py ''team_name'', JStr (py ''T''))]),
      (py ''home_name'', JStr (py ''B''))]) \<noteq> Inr (py ''T'')"
  by (simp add: extract_home_def dict_get_def py_or_def nonblank_def strip_def py_def isspace_def)

lemma strip_nonempty: "strip a \<noteq> [] \<Longrightarrow> a \<noteq> []"
  using strip_Nil by auto

text \<open>
  Claim C5, amended. \<open>extract_home\<close> (and symmetrically \<open>extract_away\<close>) prefers the nested
  team object. When \<open>home_team\<close> is a record, the value looked at is its \<open>name\<close>, or its
  \<open>team_name\<close> when \<open>name\<close> is absent or false. If that value is a string with
  non-whitespace content, its stripped form is returned even when flat keys are present:
  so a non-whitespace \<open>name\<close> wins, and a non-whitespace \<open>team_name\<close> wins when \<open>name\<close> is
  false. In every other case (no record under \<open>home_team\<close>, or the value looked at is not
  a non-whitespace string) the flat keys \<open>home_name\<close>, \<open>homeTeamName\<close>, \<open>team_home_name\<close> are
  tried in this order by \<open>first_nonempty\<close>. With nested \<open>name = "A"\<close> and flat
  \<open>home_name = "B"\<close> the result is \<open>"A"\<close>, with only \<open>home_name = "B"\<close> it is \<open>"B"\<close>, with
  neither it is \<open>""\<close>.
\<close>

theorem team_name_precedence:
  "(dict_get kv (py ''home_team'') = JDict t \<and> dict_get t (py ''name'') = JStr a \<and> strip a \<noteq> []
      \<longrightarrow> extract_home (JDict kv) = Inr (strip a)) \<and>
   (dict_get kv (py ''home_team'') = JDict t \<and> \<not> truthy (dict_get t (py ''name'')) \<and>
    dict_get t (py ''team_name'') = JStr b \<and> strip b \<noteq> []
      \<longrightarrow> extract_home (JDict kv) = Inr (strip b)) \<and>
   (dict_get kv (py ''home_team'') = JDict t \<and>
    \<not> nonblank (py_or (dict_get t (py ''name'')) (dict_get t (py ''team_name'')))
      \<longrightarrow> extract_home (JDict kv) = Inr (first_nonempty
            [dict_get kv (py ''home_name''), dict_get kv (py ''homeTeamName''),
             dict_get kv (py ''team_home_name'')])) \<and>
   ((\<forall>u. dict_get kv (py ''home_team'') \<noteq> JDict u)
      \<longrightarrow> extract_home (JDict kv) = Inr (first_nonempty
            [dict_get kv (py ''home_name''), dict_get kv (py ''homeTeamName''),
             dict_get kv (py ''team_home_name'')])) \<and>
   (dict_get kv (py ''away_team'') = JDict t \<and> dict_get t (py ''name'') = JStr a \<and> strip a \<noteq> []
      \<longrightarrow> extract_away (JDict kv) = Inr (strip a)) \<and>
   (dict_get kv (py ''away_team'') = JDict t \<and> \<not> truthy (dict_get t (py ''name'')) \<and>
    dict_get t (py ''team_name'') = JStr b \<and> strip b \<noteq> []
      \<longrightarrow> extract_away (JDict kv) = Inr (strip b)) \<and>
   (dict_get kv (py ''away_team'') = JDict t \<and>
    \<not> nonblank (py_or (dict_get t (py ''name'')) (dict_get t (py ''team_name'')))
      \<longrightarrow> extract_away (JDict kv) = Inr (first_nonempty
            [dict_get kv (py ''away_name''), dict_get kv (py ''awayTeamName''),
             dict_get kv (py ''team_away_name'')])) \<and>
   ((\<forall>u. dict_get kv (py ''away_team'') \<noteq> JDict u)
      \<longrightarrow> extract_away (JDict kv) = Inr (first_nonempty
            [dict_get kv (py ''away_name''), dict_get kv (py ''awayTeamName''),
             dict_get kv (py ''team_away_name'')])) \<and>
   extract_home (JDict [(py ''home_team'', JDict [(py ''name'', JStr (py ''A''))]),
                        (py ''home_name'', JStr (py ''B''))]) = Inr (py ''A'') \<and>
   extract_home (JDict [(py ''home_name'', JStr (py ''B''))]) = Inr (py ''B'') \<and>
   extract_home (JDict []) = Inr (py '''') \<and>
   extract_away (JDict [(py ''away_team'', JDict [(py ''name'', JStr (py ''A''))]),
                        (py ''away_name'', JStr (py ''B''))]) = Inr (py ''A'') \<and>
   extract_away (JDict [(py ''away_name'', JStr (py ''B''))]) = Inr (py ''B'') \<and>
   extract_away (JDict []) = Inr (py '''')"
proof -
  have h1: "dict_get kv (py ''home_team'') = JDict t \<and> dict_get t (py ''name'') = JStr a \<and>
      strip a \<noteq> [] \<longrightarrow> extract_home (JDict kv) = Inr (strip a)"
    using extract_home_nested [of kv t a] strip_nonempty [of a]
    by (simp add: py_or_def)
  have h2: "dict_get kv (py ''home_team'') = JDict t \<and> \<not> truthy (dict_get t (py ''name'')) \<and>
      dict_get t (py ''team_name'') = JStr b \<and> strip b \<noteq> []
      \<longrightarrow> extract_home (JDict kv) = Inr (strip b)"
    using extract_home_nested [of kv t b] by (simp add: py_or_def)
  have a1: "dict_get kv (py ''away_team'') = JDict t \<and> dict_get t (py ''name'') = JStr a \<and>
      strip a \<noteq> [] \<longrightarrow> extract_away (JDict kv) = Inr (strip a)"
    using extract_away_nested [of kv t a] strip_nonempty [of a]
    by (simp add: py_or_def)
  have a2: "dict_get kv (py ''away_team'') = JDict t \<and> \<not> truthy (dict_get t (py ''name'')) \<and>
      dict_get t (py ''team_name'') = JStr b \<and> strip b \<noteq> []
      \<longrightarrow> extract_away (JDict kv) = Inr (strip b)"
    using extract_away_nested [of kv t b] by (simp add: py_or_def)
  have e1: "extract_home (JDict [(py ''home_team'', JDict [(py ''name'', JStr (py ''A''))]),
                        (py ''home_name'', JStr (py ''B''))]) = Inr (py ''A'')"
    by (simp add: extract_home_def dict_get_def py_or_def strip_def py_def isspace_def)
  have e2: "extract_home (JDict [(py ''home_name'', JStr (py ''B''))]) = Inr (py ''B'')"
    by (simp add: extract_home_def dict_get_def py_or_def strip_def py_def isspace_def)
  have e3: "extract_home (JDict []) = Inr (py '''')"
    by (simp add: extract_home_def dict_get_def py_def)
  have e4: "extract_away (JDict [(py ''away_team'', JDict [(py ''name'', JStr (py ''A''))]),
                        (py ''away_name'', JStr (py ''B''))]) = Inr (py ''A'')"
    by (simp add: extract_away_def dict_get_def py_or_def strip_def py_def isspace_def)
  have e5: "extract_away (JDict [(py ''away_name'', JStr (py ''B''))]) = Inr (py ''B'')"
    by (simp add: extract_away_def dict_get_def py_or_def strip_def py_def isspace_def)
  have e6: "extract_away (JDict []) = Inr (py '''')"
    by (simp add: extract_away_def dict_get_def py_def)
  show ?thesis
    using h1 h2 a1 a2 e1 e2 e3 e4 e5 e6
      extract_home_flat_nested [of kv t] extract_home_flat [of kv]
      extract_away_flat_nested [of kv t] extract_away_flat [of kv]
    by blast
qed

theorem team_name_precedence_witness:
  "extract_home (JDict [(py ''home_team'', JDict [(py ''team_name'', JStr (py '' T ''))]),
                        (py ''home_name'', JStr (py ''B''))]) = Inr (py ''T'') \<and>
   extract_home (JDict [(py ''home_team'', JDict [(py ''name'', JStr (py ''N'')),
                                                  (py ''team_name'', JStr (py ''T''))]),
                        (py ''home_name'', JStr (py ''B''))]) = Inr (py ''N'') \<and>
   extract_away (JDict [(py ''away_team'', JStr (py ''Z'')),
                        (py ''awayTeamName'', JStr (py ''C''))]) = Inr (py ''C'')"
  using
    team_name_precedence [of
      "[(py ''home_team'', JDict [(py ''team_name'', JStr (py '' T ''))]),
        (py ''home_name'', JStr (py ''B''))]"
      "[(py ''team_name'', JStr (py '' T ''))]" "[]" "py '' T ''"]
    team_name_precedence [of
      "[(py ''home_team'', JDict [(py ''name'', JStr (py ''N'')), (py ''team_name'', JStr (py ''T''))]),
        (py ''home_name'', JStr (py ''B''))]"
      "[(py ''name'', JStr (py ''N'')), (py ''team_name'', JStr (py ''T''))]" "py ''N''" "[]"]
    team_name_precedence [of
      "[(py ''away_team'', JStr (py ''Z'')), (py ''awayTeamName'', JStr (py ''C''))]"
      "[]" "[]" "[]"]
  by (simp add: dict_get_def strip_def py_def isspace_def)

section \<open>Properties of the fetch layer\<close>

lemma loop_success:
  "succeeds (http (n + 1)) j \<Longrightarrow>
   get_json_loop http n d sl = \<lparr>returned = Inr j, attempts = n + 1, slept = sl\<rparr>"
  by (subst get_json_loop.simps) (auto simp: succeeds_def simp del: get_json_loop.simps split: outcome.splits body.splits)

lemma loop_retry:
  "retryable (http (n + 1)) \<Longrightarrow> n + 1 < MAX_RETRIES \<Longrightarrow>
   get_json_loop http n d sl = get_json_loop http (n + 1) (d * BACKOFF) (sl @ [d])"
  by (subst get_json_loop.simps) (auto simp: retryable_def simp del: get_json_loop.simps split: outcome.splits body.splits)

lemma loop_give_up:
  "retryable (http (n + 1)) \<Longrightarrow> \<not> n + 1 < MAX_RETRIES \<Longrightarrow>
   get_json_loop http n d sl = \<lparr>returned = Inr JNull, attempts = n + 1, slept = sl\<rparr>"
  by (subst get_json_loop.simps) (auto simp: retryable_def simp del: get_json_loop.simps split: outcome.splits body.splits)

lemma loop_cases:
  "(Suc n < MAX_RETRIES \<and>
    get_json_loop http n d sl = get_json_loop http (Suc n) (d * BACKOFF) (sl @ [d])) \<or>
   (\<exists>x. get_json_loop http n d sl = \<lparr>returned = x, attempts = Suc n, slept = sl\<rparr>)"
proof -
  note eq = get_json_loop.simps [of http n d sl]
  show ?thesis
  proof (cases "http (n + 1)")
    case (GetRaises e)
    then show ?thesis by (simp only: eq) (simp del: get_json_loop.simps)
  next
    case (Response status b)
    then show ?thesis
      by (cases b) (simp_all only: eq, simp_all del: get_json_loop.simps)
  qed
qed

lemma get_json_shape:
  "\<exists>x. get_json http = \<lparr>returned = x, attempts = 1, slept = []\<rparr> \<or>
       get_json http = \<lparr>returned = x, attempts = 2, slept = [3 / 2]\<rparr> \<or>
       get_json http = \<lparr>returned = x, attempts = 3, slept = [3 / 2, 9 / 4]\<rparr>"
proof -
  let ?b = "3 / 2 :: rat"
  have g: "get_json http = get_json_loop http 0 ?b []"
    by (simp only: get_json_def BACKOFF_def)
  have m: "\<not> Suc (Suc (Suc 0)) < MAX_RETRIES" by (simp add: MAX_RETRIES_def)
  have q: "?b * BACKOFF = 9 / 4" by (simp add: BACKOFF_def)
  have n1: "Suc 0 = 1" and n2: "Suc (Suc 0) = 2" and n3: "Suc (Suc (Suc 0)) = 3" by simp_all
  from loop_cases [of 0 http ?b "[]"] show ?thesis
  proof (elim disjE conjE exE)
    fix x assume "get_json_loop http 0 ?b [] = \<lparr>returned = x, attempts = Suc 0, slept = []\<rparr>"
    then have "get_json http = \<lparr>returned = x, attempts = 1, slept = []\<rparr>"
      by (simp only: g n1)
    then show ?thesis by blast
  next
    assume r0: "get_json_loop http 0 ?b [] = get_json_loop http (Suc 0) (?b * BACKOFF) ([] @ [?b])"
    from loop_cases [of "Suc 0" http "?b * BACKOFF" "[] @ [?b]"] show ?thesis
    proof (elim disjE conjE exE)
      fix x assume "get_json_loop http (Suc 0) (?b * BACKOFF) ([] @ [?b]) =
          \<lparr>returned = x, attempts = Suc (Suc 0), slept = [] @ [?b]\<rparr>"
      then have "get_json_loop http 0 ?b [] =
          \<lparr>returned = x, attempts = Suc (Suc 0), slept = [] @ [?b]\<rparr>"
        by (rule trans [OF r0])
      then have "get_json http = \<lparr>returned = x, attempts = 2, slept = [?b]\<rparr>"
        by (simp only: g n2 append_Nil)
      then show ?thesis by blast
    next
      assume r1: "get_json_loop http (Suc 0) (?b * BACKOFF) ([] @ [?b]) =
          get_json_loop http (Suc (Suc 0)) (?b * BACKOFF * BACKOFF) (([] @ [?b]) @ [?b * BACKOFF])"
      from loop_cases [of "Suc (Suc 0)" http "?b * BACKOFF * BACKOFF" "([] @ [?b]) @ [?b * BACKOFF]"] m
      obtain x where "get_json_loop http (Suc (Suc 0)) (?b * BACKOFF * BACKOFF) (([] @ [?b]) @ [?b * BACKOFF])
          = \<lparr>returned = x, attempts = Suc (Suc (Suc 0)), slept = ([] @ [?b]) @ [?b * BACKOFF]\<rparr>"
        by blast
      then have "get_json_loop http 0 ?b [] =
          \<lparr>returned = x, attempts = Suc (Suc (Suc 0)), slept = ([] @ [?b]) @ [?b * BACKOFF]\<rparr>"
        by (rule trans [OF r0 trans [OF r1]])
      then have "get_json http = \<lparr>returned = x, attempts = 3, slept = [?b, 9 / 4]\<rparr>"
        by (simp only: g n3 q append_Nil append_Cons)
      then show ?thesis by blast
    qed
  qed
qed

lemma get_json_1:
  "succeeds (http 1) j \<Longrightarrow> get_json http = \<lparr>returned = Inr j, attempts = 1, slept = []\<rparr>"
  using loop_success [of http 0 j BACKOFF "[]"]
  by (simp add: get_json_def del: get_json_loop.simps)

lemma get_json_2:
  "retryable (http 1) \<Longrightarrow> succeeds (http 2) j \<Longrightarrow>
   get_json http = \<lparr>returned = Inr j, attempts = 2, slept = [3 / 2]\<rparr>"
  using loop_retry [of http 0 BACKOFF "[]"] loop_success [of http 1 j "BACKOFF * BACKOFF" "[BACKOFF]"]
  by (simp add: get_json_def MAX_RETRIES_def BACKOFF_def numeral_2_eq_2 numeral_3_eq_3 del: get_json_loop.simps)

lemma get_json_3:
  "retryable (http 1) \<Longrightarrow> retryable (http 2) \<Longrightarrow> succeeds (http 3) j \<Longrightarrow>
   get_json http = \<lparr>returned = Inr j, attempts = 3, slept = [3 / 2, 9 / 4]\<rparr>"
  using loop_retry [of http 0 BACKOFF "[]"] loop_retry [of http 1 "BACKOFF * BACKOFF" "[BACKOFF]"]
    loop_success [of http 2 j "BACKOFF * BACKOFF * BACKOFF" "[BACKOFF, BACKOFF * BACKOFF]"]
  by (simp add: get_json_def MAX_RETRIES_def BACKOFF_def numeral_2_eq_2 numeral_3_eq_3 del: get_json_loop.simps)

lemma get_json_exhausted:
  "retryable (http 1) \<Longrightarrow> retryable (http 2) \<Longrightarrow> retryable (http 3) \<Longrightarrow>
   get_json http = \<lparr>returned = Inr JNull, attempts = 3, slept = [3 / 2, 9 / 4]\<rparr>"
  using loop_retry [of http 0 BACKOFF "[]"] loop_retry [of http 1 "BACKOFF * BACKOFF" "[BACKOFF]"]
    loop_give_up [of http 2 "BACKOFF * BACKOFF * BACKOFF" "[BACKOFF, BACKOFF * BACKOFF]"]
  by (simp add: get_json_def MAX_RETRIES_def BACKOFF_def numeral_2_eq_2 numeral_3_eq_3 del: get_json_loop.simps)

text \<open>
  Claim C2. For every sequence of HTTP outcomes, \<open>get_json\<close> retries a 429 status, a 5xx
  status and a transport-level failure, makes at most 3 attempts in total, sleeps between
  attempts with a delay that starts at 1.5 and is multiplied by 1.5 after each retry, and
  returns the parsed JSON of the first success. In every case the attempts and the sleeps
  are 1 and none, 2 and \<open>[1.5]\<close>, or 3 and \<open>[1.5, 2.25]\<close>: there is no sleep after the last
  attempt. For the outcomes 500, 500, success there are exactly 2 sleeps (1.5, then 2.25)
  and the parsed result is returned; for 500, 500, 500 the result is \<open>None\<close> after the
  third attempt. The delays 1.5, 2.25 and 3.375 are exact in binary floating point, so
  rational arithmetic gives the same values.
\<close>

theorem get_json_retry_policy:
  "(succeeds (http 1) j \<longrightarrow>
      get_json http = \<lparr>returned = Inr j, attempts = 1, slept = []\<rparr>) \<and>
   (retryable (http 1) \<and> succeeds (http 2) j \<longrightarrow>
      get_json http = \<lparr>returned = Inr j, attempts = 2, slept = [3 / 2]\<rparr>) \<and>
   (retryable (http 1) \<and> retryable (http 2) \<and> succeeds (http 3) j \<longrightarrow>
      get_json http = \<lparr>returned = Inr j, attempts = 3, slept = [3 / 2, 9 / 4]\<rparr>) \<and>
   (retryable (http 1) \<and> retryable (http 2) \<and> retryable (http 3) \<longrightarrow>
      get_json http = \<lparr>returned = Inr JNull, attempts = 3, slept = [3 / 2, 9 / 4]\<rparr>) \<and>
   (\<exists>x. get_json http = \<lparr>returned = x, attempts = 1, slept = []\<rparr> \<or>
        get_json http = \<lparr>returned = x, attempts = 2, slept = [3 / 2]\<rparr> \<or>
        get_json http = \<lparr>returned = x, attempts = 3, slept = [3 / 2, 9 / 4]\<rparr>) \<and>
   get_json (\<lambda>k. if k = 3 then Response 200 (Parsed j) else Response 500 b)
     = \<lparr>returned = Inr j, attempts = 3, slept = [3 / 2, 9 / 4]\<rparr> \<and>
   get_json (\<lambda>k. Response 500 b)
     = \<lparr>returned = Inr JNull, attempts = 3, slept = [3 / 2, 9 / 4]\<rparr>"
proof -
  have e1: "get_json (\<lambda>k. if k = 3 then Response 200 (Parsed j) else Response 500 b)
     = \<lparr>returned = Inr j, attempts = 3, slept = [3 / 2, 9 / 4]\<rparr>"
    by (rule get_json_3) (simp_all add: retryable_def succeeds_def)
  have e2: "get_json (\<lambda>k. Response 500 b)
     = \<lparr>returned = Inr JNull, attempts = 3, slept = [3 / 2, 9 / 4]\<rparr>"
    by (rule get_json_exhausted) (simp_all add: retryable_def)
  show ?thesis
    using get_json_1 [of http j] get_json_2 [of http j] get_json_3 [of http j]
      get_json_exhausted [of http] get_json_shape [of http] e1 e2
    by blast
qed

theorem get_json_retry_policy_witness:
  "retryable (GetRaises (Exn True False)) \<and> retryable (Response 429 (Parsed JNull)) \<and>
   succeeds (Response 200 (Parsed (JInt 7))) (JInt 7) \<and>
   get_json (\<lambda>k. if k = 1 then GetRaises (Exn True False)
                  else if k = 2 then Response 429 (Parsed JNull)
                  else Response 200 (Parsed (JInt 7)))
     = \<lparr>returned = Inr (JInt 7), attempts = 3, slept = [3 / 2, 9 / 4]\<rparr>"
  using get_json_retry_policy [of
      "\<lambda>k. if k = 1 then GetRaises (Exn True False)
           else if k = 2 then Response 429 (Parsed JNull)
           else Response 200 (Parsed (JInt 7))" "JInt 7" "Parsed JNull"]
  by (simp add: retryable_def succeeds_def del: get_json_loop.simps)

text \<open>
  A body that fails to parse makes \<open>resp.json()\<close> raise. When the exception is a
  \<open>ValueError\<close> that is no \<open>RequestException\<close>, the second handler returns \<open>None\<close> at
  once, with no sleep.
\<close>

lemma get_json_value_error:
  "\<not> (400 \<le> status \<and> status < 600) \<Longrightarrow> \<not> is_RequestException e \<Longrightarrow> is_ValueError e \<Longrightarrow>
   http 1 = Response status (JsonRaises e) \<Longrightarrow>
   get_json http = \<lparr>returned = Inr JNull, attempts = 1, slept = []\<rparr>"
  unfolding get_json_def
  by (subst get_json_loop.simps) (auto simp del: get_json_loop.simps)

text \<open>
  Claim C3 says that a success status with an unparseable body fails at the first attempt,
  with no retry and no sleep. Since version 2.27 of the requests library the exception of
  \<open>resp.json()\<close> is \<open>requests.exceptions.JSONDecodeError\<close>, which is both a
  \<open>RequestException\<close> and a \<open>ValueError\<close>. The handler \<open>except requests.RequestException\<close>
  comes first in the source and catches it: the request is retried like a transport
  failure, with two sleeps, and \<open>None\<close> is returned only after the third attempt.
\<close>

theorem get_json_parse_error_retried:
  "get_json (\<lambda>k. Response 200 (JsonRaises (Exn True True)))
     = \<lparr>returned = Inr JNull, attempts = 3, slept = [3 / 2, 9 / 4]\<rparr>"
proof -
  let ?http = "\<lambda>k::nat. Response 200 (JsonRaises (Exn True True))"
  have s: "\<And>n d sl. n + 1 < MAX_RETRIES \<Longrightarrow>
      get_json_loop ?http n d sl = get_json_loop ?http (n + 1) (d * BACKOFF) (sl @ [d])"
    by (subst get_json_loop.simps) (simp del: get_json_loop.simps)
  have f: "\<And>d sl. get_json_loop ?http 2 d sl = \<lparr>returned = Inr JNull, attempts = 3, slept = sl\<rparr>"
    by (subst get_json_loop.simps) (simp add: MAX_RETRIES_def del: get_json_loop.simps)
  show ?thesis
    using s [of 0 BACKOFF "[]"] s [of 1 "BACKOFF * BACKOFF" "[BACKOFF]"]
      f [of "BACKOFF * BACKOFF * BACKOFF" "[BACKOFF, BACKOFF * BACKOFF]"]
    by (simp add: get_json_def MAX_RETRIES_def BACKOFF_def numeral_2_eq_2 numeral_3_eq_3
          del: get_json_loop.simps)
qed

section \<open>Properties of the match paginator\<close>

lemma for_each_collect: "for_each (\<lambda>acc m. Inr (acc @ [m])) items s = (None, s @ items)"
  by (induction items arbitrary: s) simp_all

lemma page_matches_response: "page_matches (schedule_response ms) = Inr (JList ms)"
  by (simp add: page_matches_def schedule_response_def py_or_def dict_get_default_def py_def)

lemma page_matches_failed: "page_matches JNull = Inr (JList [])"
  by (simp add: page_matches_def py_or_def dict_get_default_def)

lemma iter_step_full:
  "page_matches (fetch page) = Inr (JList ms) \<Longrightarrow> MATCHES_PER_PAGE \<le> length ms \<Longrightarrow>
   for_each body ms s = (None, s') \<Longrightarrow>
   iter_loop fetch body page s = iter_loop fetch body (page + 1) s'"
  by (subst iter_loop.simps) (auto simp: MATCHES_PER_PAGE_def)

lemma iter_step_last:
  "page_matches (fetch page) = Inr (JList ms) \<Longrightarrow> length ms < MATCHES_PER_PAGE \<Longrightarrow>
   for_each body ms s = (None, s') \<Longrightarrow>
   iter_loop fetch body page s = Some (None, page, s')"
  by (subst iter_loop.simps) (auto simp: MATCHES_PER_PAGE_def)

lemma iter_pages:
  "(\<forall>p. page \<le> p \<and> p < page + k \<longrightarrow>
      page_matches (fetch p) = Inr (JList (pg p)) \<and> MATCHES_PER_PAGE \<le> length (pg p)) \<Longrightarrow>
   page_matches (fetch (page + k)) = Inr (JList (pg (page + k))) \<Longrightarrow>
   length (pg (page + k)) < MATCHES_PER_PAGE \<Longrightarrow>
   iter_loop fetch (\<lambda>acc m. Inr (acc @ [m])) page s
     = Some (None, page + k, s @ concat (map pg [page..<Suc (page + k)]))"
proof (induction k arbitrary: page s)
  case 0
  then show ?case
    using iter_step_last [of fetch page "pg page" "\<lambda>acc m. Inr (acc @ [m])" s "s @ pg page"]
    by (simp add: for_each_collect)
next
  case (Suc k)
  have full: "page_matches (fetch page) = Inr (JList (pg page))" "MATCHES_PER_PAGE \<le> length (pg page)"
    using Suc.prems(1) by auto
  have step: "iter_loop fetch (\<lambda>acc m. Inr (acc @ [m])) page s
      = iter_loop fetch (\<lambda>acc m. Inr (acc @ [m])) (page + 1) (s @ pg page)"
    using iter_step_full [of fetch page "pg page" "\<lambda>acc m. Inr (acc @ [m])" s "s @ pg page"] full
    by (simp add: for_each_collect)
  have ih: "iter_loop fetch (\<lambda>acc m. Inr (acc @ [m])) (page + 1) (s @ pg page)
      = Some (None, (page + 1) + k, (s @ pg page) @ concat (map pg [page + 1..<Suc ((page + 1) + k)]))"
    using Suc.prems by (intro Suc.IH) auto
  have "[page..<Suc (page + Suc k)] = page # [page + 1..<Suc ((page + 1) + k)]"
    by (simp add: upt_rec)
  then show ?case using step ih by simp
qed

lemma iter_matches_general:
  assumes full: "\<forall>p. 1 \<le> p \<and> p < n \<longrightarrow>
      page_matches (fetch p) = Inr (JList (pg p)) \<and> MATCHES_PER_PAGE \<le> length (pg p)"
    and n: "1 \<le> n"
    and last: "page_matches (fetch n) = Inr (JList (pg n))" "length (pg n) < MATCHES_PER_PAGE"
  shows "iter_matches fetch = Some (None, n, concat (map pg [1..<Suc n]))"
proof -
  obtain k where k: "n = 1 + k" using n by (metis le_Suc_ex plus_1_eq_Suc Suc_eq_plus1_left le_iff_add)
  have "iter_loop fetch (\<lambda>acc m. Inr (acc @ [m])) 1 []
      = Some (None, 1 + k, [] @ concat (map pg [1..<Suc (1 + k)]))"
    using full last unfolding k by (intro iter_pages) auto
  then show ?thesis by (simp add: iter_matches_def k)
qed

lemma iter_matches_three_pages:
  assumes "length a = 20" "length b = 20" "length c < 20"
  shows "iter_matches (\<lambda>p. if p = 1 then schedule_response a else if p = 2 then schedule_response b
            else if p = 3 then schedule_response c else later p) = Some (None, 3, a @ b @ c)"
proof -
  let ?f = "\<lambda>p::nat. if p = 1 then schedule_response a else if p = 2 then schedule_response b
            else if p = 3 then schedule_response c else later p"
  let ?pg = "\<lambda>p::nat. if p = 1 then a else if p = 2 then b else c"
  have f: "\<forall>p. 1 \<le> p \<and> p < 3 \<longrightarrow>
      page_matches (?f p) = Inr (JList (?pg p)) \<and> MATCHES_PER_PAGE \<le> length (?pg p)"
  proof (intro allI impI)
    fix p :: nat assume "1 \<le> p \<and> p < 3"
    then have "p = 1 \<or> p = 2" by arith
    then show "page_matches (?f p) = Inr (JList (?pg p)) \<and> MATCHES_PER_PAGE \<le> length (?pg p)"
      using assms by (auto simp: page_matches_response MATCHES_PER_PAGE_def)
  qed
  have "iter_matches ?f = Some (None, 3, concat (map ?pg [1..<Suc 3]))"
    using f assms by (intro iter_matches_general) (simp_all add: page_matches_response MATCHES_PER_PAGE_def)
  moreover have "[1..<Suc 3] = [1, 2, 3::nat]" by (simp add: upt_rec)
  ultimately show ?thesis by simp
qed

lemma iter_matches_four_pages:
  assumes "length a = 20" "length b = 20" "length c = 20" "length d < 20"
  shows "iter_matches (\<lambda>p. if p = 1 then schedule_response a else if p = 2 then schedule_response b
            else if p = 3 then schedule_response c else if p = 4 then schedule_response d
            else later p) = Some (None, 4, a @ b @ c @ d)"
proof -
  let ?f = "\<lambda>p::nat. if p = 1 then schedule_response a else if p = 2 then schedule_response b
            else if p = 3 then schedule_response c else if p = 4 then schedule_response d
            else later p"
  let ?pg = "\<lambda>p::nat. if p = 1 then a else if p = 2 then b else if p = 3 then c else d"
  have f: "\<forall>p. 1 \<le> p \<and> p < 4 \<longrightarrow>
      page_matches (?f p) = Inr (JList (?pg p)) \<and> MATCHES_PER_PAGE \<le> length (?pg p)"
  proof (intro allI impI)
    fix p :: nat assume "1 \<le> p \<and> p < 4"
    then have "p = 1 \<or> p = 2 \<or> p = 3" by arith
    then show "page_matches (?f p) = Inr (JList (?pg p)) \<and> MATCHES_PER_PAGE \<le> length (?pg p)"
      using assms by (auto simp: page_matches_response MATCHES_PER_PAGE_def)
  qed
  have "iter_matches ?f = Some (None, 4, concat (map ?pg [1..<Suc 4]))"
    using f assms by (intro iter_matches_general) (simp_all add: page_matches_response MATCHES_PER_PAGE_def)
  moreover have "[1..<Suc 4] = [1, 2, 3, 4::nat]" by (simp add: upt_rec)
  ultimately show ?thesis by simp
qed

text \<open>
  Claim C1. Whatever the schedule endpoint answers, \<open>iter_matches\<close> yields exactly the
  matches received, page after page and each page in the order received, and stops at the
  first page with fewer than 20 matches: when pages 1 to \<open>n - 1\<close> carry at least 20 matches
  each and page \<open>n\<close> carries fewer than 20 (none at all included, which is also what a failed
  fetch amounts to), the generator ends without an exception after exactly \<open>n\<close> calls of
  \<open>get_json\<close> and has yielded the matches of pages 1 to \<open>n\<close>, concatenated. For pages of
  sizes 20, 20, 7 it yields 47 matches in 3 calls; for sizes 20, 20, 20, 0 it yields 60
  matches in 4 calls, the fourth being the fetch of the empty page. Later pages
  (\<open>later\<close>) are never looked at.
\<close>

theorem iter_matches_pages:
  "((\<forall>p. 1 \<le> p \<and> p < n \<longrightarrow>
        page_matches (fetch p) = Inr (JList (pg p)) \<and> MATCHES_PER_PAGE \<le> length (pg p)) \<and>
    1 \<le> n \<and> page_matches (fetch n) = Inr (JList (pg n)) \<and> length (pg n) < MATCHES_PER_PAGE
      \<longrightarrow> iter_matches fetch = Some (None, n, concat (map pg [1..<Suc n]))) \<and>
   page_matches (schedule_response ms) = Inr (JList ms) \<and>
   page_matches JNull = Inr (JList []) \<and>
   (length a = 20 \<and> length b = 20 \<and> length c = 7 \<longrightarrow>
      iter_matches (\<lambda>p. if p = 1 then schedule_response a else if p = 2 then schedule_response b
            else if p = 3 then schedule_response c else later p) = Some (None, 3, a @ b @ c) \<and>
      length (a @ b @ c) = 47) \<and>
   (length a = 20 \<and> length b = 20 \<and> length c = 20 \<longrightarrow>
      iter_matches (\<lambda>p. if p = 1 then schedule_response a else if p = 2 then schedule_response b
            else if p = 3 then schedule_response c else if p = 4 then schedule_response []
            else later p) = Some (None, 4, a @ b @ c) \<and>
      length (a @ b @ c) = 60)"
proof -
  have g: "(\<forall>p. 1 \<le> p \<and> p < n \<longrightarrow>
        page_matches (fetch p) = Inr (JList (pg p)) \<and> MATCHES_PER_PAGE \<le> length (pg p)) \<and>
    1 \<le> n \<and> page_matches (fetch n) = Inr (JList (pg n)) \<and> length (pg n) < MATCHES_PER_PAGE
      \<longrightarrow> iter_matches fetch = Some (None, n, concat (map pg [1..<Suc n]))"
    using iter_matches_general [of n fetch pg] by blast
  have e1: "length a = 20 \<and> length b = 20 \<and> length c = 7 \<longrightarrow>
      iter_matches (\<lambda>p. if p = 1 then schedule_response a else if p = 2 then schedule_response b
            else if p = 3 then schedule_response c else later p) = Some (None, 3, a @ b @ c) \<and>
      length (a @ b @ c) = 47"
    using iter_matches_three_pages [of a b c later] by simp
  have e2: "length a = 20 \<and> length b = 20 \<and> length c = 20 \<longrightarrow>
      iter_matches (\<lambda>p. if p = 1 then schedule_response a else if p = 2 then schedule_response b
            else if p = 3 then schedule_response c else if p = 4 then schedule_response []
            else later p) = Some (None, 4, a @ b @ c) \<and>
      length (a @ b @ c) = 60"
    using iter_matches_four_pages [of a b c "[]" later] by simp
  show ?thesis
    using g e1 e2 page_matches_response [of ms] page_matches_failed by blast
qed

theorem iter_matches_pages_witness:
  "page_matches (schedule_response (replicate 20 (JInt 1))) = Inr (JList (replicate 20 (JInt 1))) \<and>
   MATCHES_PER_PAGE \<le> length (replicate 20 (JInt 1)) \<and>
   page_matches (schedule_response [JInt 2]) = Inr (JList [JInt 2]) \<and>
   length [JInt 2] < MATCHES_PER_PAGE \<and>
   iter_matches (\<lambda>p. if p = 1 then schedule_response (replicate 20 (JInt 1))
                      else schedule_response [JInt 2])
     = Some (None, 2, replicate 20 (JInt 1) @ [JInt 2]) \<and>
   length (replicate 20 (JInt 1)) = 20 \<and> length (replicate 20 (JInt 2)) = 20 \<and>
   length (replicate 7 (JInt 3)) = 7 \<and>
   iter_matches (\<lambda>p. if p = 1 then schedule_response (replicate 20 (JInt 1))
            else if p = 2 then schedule_response (replicate 20 (JInt 2))
            else if p = 3 then schedule_response (replicate 7 (JInt 3)) else JNull)
     = Some (None, 3, replicate 20 (JInt 1) @ replicate 20 (JInt 2) @ replicate 7 (JInt 3))"
proof -
  let ?f = "\<lambda>p::nat. if p = 1 then schedule_response (replicate 20 (JInt 1))
                      else schedule_response [JInt 2]"
  let ?pg = "\<lambda>p::nat. if p = 1 then replicate 20 (JInt 1) else [JInt 2]"
  have h: "\<forall>p. 1 \<le> p \<and> p < 2 \<longrightarrow>
      page_matches (?f p) = Inr (JList (?pg p)) \<and> MATCHES_PER_PAGE \<le> length (?pg p)"
  proof (intro allI impI)
    fix p :: nat assume "1 \<le> p \<and> p < 2"
    then have "p = 1" by arith
    then show "page_matches (?f p) = Inr (JList (?pg p)) \<and> MATCHES_PER_PAGE \<le> length (?pg p)"
      using iter_matches_pages [of 0 "\<lambda>p. JNull" "\<lambda>p. []" "replicate 20 (JInt 1)"]
      by (simp add: MATCHES_PER_PAGE_def)
  qed
  have l: "page_matches (?f 2) = Inr (JList (?pg 2))" "length (?pg 2) < MATCHES_PER_PAGE"
    using iter_matches_pages [of 0 "\<lambda>p. JNull" "\<lambda>p. []" "[JInt 2]"]
    by (simp_all add: MATCHES_PER_PAGE_def)
  have "iter_matches ?f = Some (None, 2, concat (map ?pg [1..<Suc 2]))"
    using iter_matches_pages [of 2 ?f ?pg] h l by simp
  moreover have "[1..<Suc 2] = [1, 2::nat]" by (simp add: upt_rec)
  ultimately have g: "iter_matches ?f = Some (None, 2, replicate 20 (JInt 1) @ [JInt 2])"
    by simp
  show ?thesis
    using g h l
      iter_matches_pages [of 0 "\<lambda>p. JNull" "\<lambda>p. []" "replicate 20 (JInt 1)"]
      iter_matches_pages [of 0 "\<lambda>p. JNull" "\<lambda>p. []" "[JInt 2]" "replicate 20 (JInt 1)"
        "replicate 20 (JInt 2)" "replicate 7 (JInt 3)" "\<lambda>p. JNull"]
    by (simp add: MATCHES_PER_PAGE_def)
qed

section \<open>Properties of the division enumerator\<close>

lemma divisions_loop_plain:
  "\<forall>d\<in>set ds. plain_record d \<Longrightarrow>
   divisions_loop nd ds out = Inr (out @ List.map_filter division_of ds)"
proof (induction ds arbitrary: out)
  case Nil
  show ?case by (simp add: List.map_filter_simps)
next
  case (Cons d ds)
  from Cons.prems obtain r where d: "d = JDict r" by (cases d) (auto simp: plain_record_def)
  from Cons.prems have rest: "\<forall>d\<in>set ds. plain_record d" by simp
  from Cons.prems d consider (null) "dict_get r (py ''id'') = JNull"
    | (int) n where "dict_get r (py ''id'') = JInt n"
    by (cases "dict_get r (py ''id'')") (auto simp: plain_record_def)
  then show ?case
  proof cases
    case null
    then show ?thesis
      using Cons.IH [OF rest, of out]
      by (simp add: d division_of_def List.map_filter_simps)
  next
    case (int n)
    then show ?thesis
      using Cons.IH [OF rest, of "out @ [(n, display_name r n)]"]
      by (simp add: d division_of_def List.map_filter_simps display_name_def py_or_def)
  qed
qed

lemma get_divisions_failed: "get_divisions nd JNull = Inr []"
  by (simp add: get_divisions_def py_or_def dict_get_default_def)

lemma get_divisions_no_content:
  "map_of kv (py ''content'') = None \<Longrightarrow> get_divisions nd (JDict kv) = Inr []"
  by (cases kv) (simp_all add: get_divisions_def py_or_def dict_get_default_def)

lemma get_divisions_no_tournament:
  "map_of kv (py ''content'') = Some (JDict c) \<Longrightarrow> map_of c (py ''tournament'') = None \<Longrightarrow>
   get_divisions nd (JDict kv) = Inr []"
  by (cases kv) (simp_all add: get_divisions_def py_or_def dict_get_default_def)

lemma get_divisions_no_divisions:
  "map_of kv (py ''content'') = Some (JDict c) \<Longrightarrow>
   map_of c (py ''tournament'') = Some (JDict t) \<Longrightarrow> map_of t (py ''divisions'') = None \<Longrightarrow>
   get_divisions nd (JDict kv) = Inr []"
  by (cases kv) (simp_all add: get_divisions_def py_or_def dict_get_default_def)

lemma get_divisions_list:
  "map_of kv (py ''content'') = Some (JDict c) \<Longrightarrow>
   map_of c (py ''tournament'') = Some (JDict t) \<Longrightarrow>
   map_of t (py ''divisions'') = Some (JList ds) \<Longrightarrow>
   get_divisions nd (JDict kv) = divisions_loop nd ds []"
  by (cases kv) (simp_all add: get_divisions_def py_or_def dict_get_default_def)

lemma get_divisions_response:
  "\<forall>d\<in>set ds. plain_record d \<Longrightarrow>
   get_divisions nd (tournament_response ds) = Inr (List.map_filter division_of ds)"
  using get_divisions_list [of "[(py ''content'', JDict [(py ''tournament'', JDict [(py ''divisions'', JList ds)])])]"
      "[(py ''tournament'', JDict [(py ''divisions'', JList ds)])]" "[(py ''divisions'', JList ds)]" ds nd]
    divisions_loop_plain [of ds nd "[]"]
  by (simp add: tournament_response_def)

lemma division_of_example:
  "List.map_filter division_of
     [JDict [(py ''id'', JInt 7), (py ''division_name'', JStr (py ''U10'')), (py ''name'', JStr (py ''x''))],
      JDict [(py ''name'', JStr (py ''no id''))],
      JDict [(py ''id'', JInt 8), (py ''division_name'', JStr (py '''')), (py ''name'', JStr (py ''U12''))],
      JDict [(py ''id'', JInt 9)]]
   = [(7, JStr (py ''U10'')), (8, JStr (py ''U12'')), (9, JStr (py ''Division 9''))]"
  by (simp add: List.map_filter_simps division_of_def display_name_def dict_get_def int_str_def py_def)

text \<open>
  What \<open>get_divisions\<close> does tolerate: it returns the empty list, not a failure, when the
  fetch failed (\<open>get_json\<close> returned \<open>None\<close>) and when a key of the path content,
  tournament, divisions is absent from a record that is there. For a list of division
  records whose ids are integers or missing, it returns one Division per record that has an
  id, in the order of the records, and skips the records that lack one (key absent or
  \<open>null\<close>). The display name is \<open>division_name\<close> when that is true, else \<open>name\<close> when that
  is true, else the label \<open>Division n\<close> made from the id.
\<close>

lemma get_divisions_tolerant:
  "get_divisions nd JNull = Inr [] \<and>
   (map_of kv (py ''content'') = None \<longrightarrow> get_divisions nd (JDict kv) = Inr []) \<and>
   (map_of kv (py ''content'') = Some (JDict c) \<and> map_of c (py ''tournament'') = None
      \<longrightarrow> get_divisions nd (JDict kv) = Inr []) \<and>
   (map_of kv (py ''content'') = Some (JDict c) \<and> map_of c (py ''tournament'') = Some (JDict t) \<and>
    map_of t (py ''divisions'') = None
      \<longrightarrow> get_divisions nd (JDict kv) = Inr []) \<and>
   (map_of kv (py ''content'') = Some (JDict c) \<and> map_of c (py ''tournament'') = Some (JDict t) \<and>
    map_of t (py ''divisions'') = Some (JList ds) \<and> (\<forall>d\<in>set ds. plain_record d)
      \<longrightarrow> get_divisions nd (JDict kv) = Inr (List.map_filter division_of ds)) \<and>
   (dict_get r (py ''id'') = JNull \<longrightarrow> division_of (JDict r) = None) \<and>
   (dict_get r (py ''id'') = JInt n \<and> truthy (dict_get r (py ''division_name''))
      \<longrightarrow> division_of (JDict r) = Some (n, dict_get r (py ''division_name''))) \<and>
   (dict_get r (py ''id'') = JInt n \<and> \<not> truthy (dict_get r (py ''division_name'')) \<and>
    truthy (dict_get r (py ''name''))
      \<longrightarrow> division_of (JDict r) = Some (n, dict_get r (py ''name''))) \<and>
   (dict_get r (py ''id'') = JInt n \<and> \<not> truthy (dict_get r (py ''division_name'')) \<and>
    \<not> truthy (dict_get r (py ''name''))
      \<longrightarrow> division_of (JDict r) = Some (n, JStr (py ''Division '' @ int_str n))) \<and>
   get_divisions nd (tournament_response
     [JDict [(py ''id'', JInt 7), (py ''division_name'', JStr (py ''U10'')), (py ''name'', JStr (py ''x''))],
      JDict [(py ''name'', JStr (py ''no id''))],
      JDict [(py ''id'', JInt 8), (py ''division_name'', JStr (py '''')), (py ''name'', JStr (py ''U12''))],
      JDict [(py ''id'', JInt 9)]])
   = Inr [(7, JStr (py ''U10'')), (8, JStr (py ''U12'')), (9, JStr (py ''Division 9''))]"
proof -
  have l: "map_of kv (py ''content'') = Some (JDict c) \<and> map_of c (py ''tournament'') = Some (JDict t) \<and>
    map_of t (py ''divisions'') = Some (JList ds) \<and> (\<forall>d\<in>set ds. plain_record d)
      \<longrightarrow> get_divisions nd (JDict kv) = Inr (List.map_filter division_of ds)"
    using get_divisions_list [of kv c t ds nd] divisions_loop_plain [of ds nd "[]"] by simp
  have d: "(dict_get r (py ''id'') = JNull \<longrightarrow> division_of (JDict r) = None) \<and>
   (dict_get r (py ''id'') = JInt n \<and> truthy (dict_get r (py ''division_name''))
      \<longrightarrow> division_of (JDict r) = Some (n, dict_get r (py ''division_name''))) \<and>
   (dict_get r (py ''id'') = JInt n \<and> \<not> truthy (dict_get r (py ''division_name'')) \<and>
    truthy (dict_get r (py ''name''))
      \<longrightarrow> division_of (JDict r) = Some (n, dict_get r (py ''name''))) \<and>
   (dict_get r (py ''id'') = JInt n \<and> \<not> truthy (dict_get r (py ''division_name'')) \<and>
    \<not> truthy (dict_get r (py ''name''))
      \<longrightarrow> division_of (JDict r) = Some (n, JStr (py ''Division '' @ int_str n)))"
    by (simp add: division_of_def display_name_def)
  have e: "get_divisions nd (tournament_response
     [JDict [(py ''id'', JInt 7), (py ''division_name'', JStr (py ''U10'')), (py ''name'', JStr (py ''x''))],
      JDict [(py ''name'', JStr (py ''no id''))],
      JDict [(py ''id'', JInt 8), (py ''division_name'', JStr (py '''')), (py ''name'', JStr (py ''U12''))],
      JDict [(py ''id'', JInt 9)]])
   = Inr [(7, JStr (py ''U10'')), (8, JStr (py ''U12'')), (9, JStr (py ''Division 9''))]"
  proof -
    have p: "\<forall>d\<in>set
     [JDict [(py ''id'', JInt 7), (py ''division_name'', JStr (py ''U10'')), (py ''name'', JStr (py ''x''))],
      JDict [(py ''name'', JStr (py ''no id''))],
      JDict [(py ''id'', JInt 8), (py ''division_name'', JStr (py '''')), (py ''name'', JStr (py ''U12''))],
      JDict [(py ''id'', JInt 9)]]. plain_record d"
      by (simp add: plain_record_def dict_get_def py_def)
    from get_divisions_response [OF p, of nd] show ?thesis
      by (simp only: division_of_example)
  qed
  show ?thesis
    using get_divisions_failed [of nd] get_divisions_no_content [of kv nd]
      get_divisions_no_tournament [of kv c nd] get_divisions_no_divisions [of kv c t nd] l d e
    by blast
qed

lemma get_divisions_tolerant_example:
  "plain_record (JDict [(py ''id'', JInt 3), (py ''name'', JStr (py ''B''))]) \<and>
   plain_record (JDict [(py ''name'', JStr (py ''C''))]) \<and>
   \<not> truthy (dict_get [(py ''id'', JInt 3), (py ''name'', JStr (py ''B''))] (py ''division_name'')) \<and>
   truthy (dict_get [(py ''id'', JInt 3), (py ''name'', JStr (py ''B''))] (py ''name'')) \<and>
   division_of (JDict [(py ''id'', JInt 3), (py ''name'', JStr (py ''B''))]) = Some (3, JStr (py ''B'')) \<and>
   get_divisions (\<lambda>c. None)
     (JDict [(py ''content'', JDict [(py ''tournament'', JDict [(py ''divisions'',
        JList [JDict [(py ''id'', JInt 3), (py ''name'', JStr (py ''B''))],
               JDict [(py ''name'', JStr (py ''C''))]])])])])
     = Inr [(3, JStr (py ''B''))] \<and>
   get_divisions (\<lambda>c. None) (JDict [(py ''status'', JInt 200)]) = Inr []"
proof -
  let ?r = "[(py ''id'', JInt 3), (py ''name'', JStr (py ''B''))]"
  let ?ds = "[JDict ?r, JDict [(py ''name'', JStr (py ''C''))]]"
  let ?t = "[(py ''divisions'', JList ?ds)]"
  let ?c = "[(py ''tournament'', JDict ?t)]"
  let ?kv = "[(py ''content'', JDict ?c)]"
  have p: "plain_record (JDict ?r)" "plain_record (JDict [(py ''name'', JStr (py ''C''))])"
    by (simp_all add: plain_record_def dict_get_def py_def)
  have i: "dict_get ?r (py ''id'') = JInt 3"
    "\<not> truthy (dict_get ?r (py ''division_name''))" "truthy (dict_get ?r (py ''name''))"
    "dict_get ?r (py ''name'') = JStr (py ''B'')"
    by (simp_all add: dict_get_def py_def)
  have m: "map_of ?kv (py ''content'') = Some (JDict ?c)"
    "map_of ?c (py ''tournament'') = Some (JDict ?t)"
    "map_of ?t (py ''divisions'') = Some (JList ?ds)"
    by simp_all
  have n: "map_of [(py ''status'', JInt 200)] (py ''content'') = None"
    by (simp add: py_def)
  have d: "division_of (JDict ?r) = Some (3, JStr (py ''B''))"
    using get_divisions_tolerant [of "\<lambda>c. None" ?kv ?c ?t ?ds ?r 3] i by simp
  have f: "division_of (JDict [(py ''name'', JStr (py ''C''))]) = None"
    using get_divisions_tolerant [of "\<lambda>c. None" ?kv ?c ?t ?ds "[(py ''name'', JStr (py ''C''))]" 3]
    by (simp add: dict_get_def py_def)
  have g: "get_divisions (\<lambda>c. None) (JDict ?kv) = Inr (List.map_filter division_of ?ds)"
    using get_divisions_tolerant [of "\<lambda>c. None" ?kv ?c ?t ?ds ?r 3] m p by simp
  have e: "get_divisions (\<lambda>c. None) (JDict [(py ''status'', JInt 200)]) = Inr []"
    using get_divisions_tolerant [of "\<lambda>c. None" "[(py ''status'', JInt 200)]" ?c ?t ?ds ?r 3] n
    by blast
  show ?thesis using p i d g e f by (simp add: List.map_filter_simps)
qed

subsection \<open>A level that is null\<close>

lemma get_divisions_null_divisions:
  "get_divisions nd (JDict [(py ''content'', JDict [(py ''tournament'',
       JDict [(py ''divisions'', JNull)])])])
     = Inl TypeError"
  by (simp add: get_divisions_def py_or_def dict_get_default_def)

text \<open>
  Claim C8 says that \<open>get_divisions\<close> returns an empty list, not a failure, when the path
  response, content, tournament, divisions is absent at any level. In the response
  \<open>{"content": null}\<close> the levels tournament and divisions are absent: there is no record
  to hold them. The source reads the path as
  \<open>data.get("content", {}).get("tournament", {}).get("divisions", [])\<close>, where the default
  \<open>{}\<close> stands in for a missing key only, so \<open>.get\<close> is called on \<open>None\<close> and
  \<open>AttributeError\<close> leaves \<open>get_divisions\<close>; the same with \<open>{"content": {"tournament": null}}\<close>.
  \<open>iter_matches\<close> reads its path as \<open>(data.get("content", {}) or {}).get("matches", []) or []\<close>
  and takes the same response for a page without matches.
\<close>

theorem get_divisions_null_level_raises:
  "walk (JDict [(py ''content'', JNull)]) [py ''content'', py ''tournament''] = None \<and>
   walk (JDict [(py ''content'', JNull)]) [py ''content'', py ''tournament'', py ''divisions''] = None \<and>
   get_divisions nd (JDict [(py ''content'', JNull)]) = Inl AttributeError \<and>
   page_matches (JDict [(py ''content'', JNull)]) = Inr (JList []) \<and>
   walk (JDict [(py ''content'', JDict [(py ''tournament'', JNull)])])
     [py ''content'', py ''tournament'', py ''divisions''] = None \<and>
   get_divisions nd (JDict [(py ''content'', JDict [(py ''tournament'', JNull)])])
     = Inl AttributeError"
  by (simp add: get_divisions_def page_matches_def py_or_def dict_get_default_def)

section \<open>Properties of the identifier resolver\<close>

lemma re_search_event_short: "length s < 7 \<Longrightarrow> re_search_event nd s = None"
proof (induction s)
  case Nil show ?case by simp
next
  case (Cons c cs)
  have "length (py ''/event/'') = 7" by (simp add: py_def)
  then have "take 7 (c # cs) \<noteq> py ''/event/''" using Cons.prems
    by (metis length_take min.absorb1 less_imp_le_nat nat_neq_iff)
  then show ?case using Cons by (simp add: match_event_at_def del: take_Suc_Cons)
qed

text \<open>
  Claim C7 says that a string which, after trimming, consists solely of digits is parsed
  to that integer. The source tests \<open>s.strip()\<close> against \<open>\d+\<close> but then calls \<open>int(s)\<close> on
  the string as given. \<open>str.strip()\<close> removes the separators U+001C..U+001F, which \<open>int()\<close>
  does not accept as white space: for the string U+001C followed by \<open>5\<close> the trimmed string
  is \<open>5\<close>, the pattern matches, and \<open>int(s)\<close> raises \<open>ValueError\<close>.
\<close>

theorem parse_event_id_control_space:
  "strip [28, 53] = py ''5'' \<and> fullmatch_digits nd (strip [28, 53]) \<and>
   re_search_event nd [28, 53] = None \<and>
   parse_event_id nd [28, 53] = Inl ValueError"
proof -
  have s: "strip [28, 53] = [53]" by (simp add: strip_def isspace_def)
  have f: "fullmatch_digits nd [53]"
    by (simp add: fullmatch_digits_def isdigit_def digit_value_def)
  have r: "re_search_event nd [28, 53] = None" by (rule re_search_event_short) simp
  have i: "py_int_str nd [28, 53] = Inl ValueError"
    by (simp add: py_int_str_def int_space_def isspace_def unsigned_literal_def digit_value_def)
  show ?thesis using s f r i by (simp add: parse_event_id_def py_def)
qed

lemma parse_event_id_6489: "parse_event_id nd (py ''6489'') = Inr 6489"
proof -
  have r: "re_search_event nd (py ''6489'') = None"
    by (rule re_search_event_short) (simp add: py_def)
  have s: "strip (py ''6489'') = py ''6489''" by (simp add: strip_def isspace_def py_def)
  have f: "fullmatch_digits nd (py ''6489'')"
    by (simp add: fullmatch_digits_def isdigit_def digit_value_def py_def)
  have i: "py_int_str nd (py ''6489'') = Inr 6489"
    by (simp add: py_int_str_def int_space_def isspace_def unsigned_literal_def digit_value_def
        isdigit_def INT_MAX_STR_DIGITS_def py_def)
  show ?thesis using r s f i by (simp add: parse_event_id_def)
qed

subsection \<open>What the resolver returns\<close>

text \<open>
  The remaining behaviour of \<open>parse_event_id\<close>: a string with a segment \<open>/event/<digits>/\<close>
  yields the number of its leftmost such segment; a string without one whose trimmed form is
  all digits, and which holds none of U+001C..U+001F, yields that number; in both cases a
  number of more than \<open>INT_MAX_STR_DIGITS\<close> digits raises \<open>ValueError\<close> instead. Every other
  string without a segment raises \<open>ValueError\<close>. The digit table \<open>nd\<close> is assumed to give
  no value to a white-space character.
\<close>

lemma digits_body_digits:
  "list_all (isdigit nd) ds \<Longrightarrow>
   digits_body nd ds acc
     = Some (foldl (\<lambda>a c. 10 * a + (case digit_value nd c of Some d \<Rightarrow> d | None \<Rightarrow> 0)) acc ds)"
  by (induction ds arbitrary: acc) (auto simp: isdigit_def)

lemma filter_digits: "list_all (isdigit nd) ds \<Longrightarrow> filter (isdigit nd) ds = ds"
  by (induction ds) simp_all

lemma unsigned_literal_digits:
  assumes "ds \<noteq> []" and "list_all (isdigit nd) ds" and "length ds \<le> INT_MAX_STR_DIGITS"
  shows "unsigned_literal nd ds = Some (decimal nd ds)"
proof -
  from assms(1) obtain c cs where ds: "ds = c # cs" by (cases ds) simp_all
  from assms(2) ds obtain d where d: "digit_value nd c = Some d" and cs: "list_all (isdigit nd) cs"
    by (auto simp: isdigit_def)
  have b: "digits_body nd cs d = Some (decimal nd ds)"
    by (simp add: digits_body_digits [OF cs] decimal_def ds d)
  have f: "length (filter (isdigit nd) ds) = length ds"
    by (simp add: filter_digits [OF assms(2)])
  have n: "\<not> INT_MAX_STR_DIGITS < length (filter (isdigit nd) ds)"
    using assms(3) by (simp only: f not_less)
  show ?thesis
    unfolding unsigned_literal_def using n b d by (simp add: ds del: filter.simps)
qed

text \<open>A literal with more digits than the limit is refused.\<close>

lemma unsigned_literal_too_long:
  "INT_MAX_STR_DIGITS < length (filter (isdigit nd) ds) \<Longrightarrow> unsigned_literal nd ds = None"
  by (cases ds) (auto simp: unsigned_literal_def simp del: filter.simps split: option.splits)

lemma sign_not_digit: "\<not> isdigit nd 45" "\<not> isdigit nd 43" "\<not> isdigit nd 47"
  by (simp_all add: isdigit_def digit_value_def)

lemma py_int_str_core:
  assumes "rev (dropWhile int_space (rev (dropWhile int_space s))) = t"
    and "t \<noteq> []" and "list_all (isdigit nd) t" and "length t \<le> INT_MAX_STR_DIGITS"
  shows "py_int_str nd s = Inr (int (decimal nd t))"
proof -
  from assms(2) obtain c cs where t: "t = c # cs" by (cases t) simp_all
  with assms(3) have "isdigit nd c" by simp
  then have c: "c \<noteq> 45" "c \<noteq> 43" using sign_not_digit by auto
  show ?thesis
    using unsigned_literal_digits [OF assms(2,3,4)] c
    by (simp add: py_int_str_def assms(1) t)
qed

lemma py_int_str_too_long:
  assumes "rev (dropWhile int_space (rev (dropWhile int_space s))) = t"
    and "list_all (isdigit nd) t" and "INT_MAX_STR_DIGITS < length t"
  shows "py_int_str nd s = Inl ValueError"
proof -
  from assms(3) obtain c cs where t: "t = c # cs" by (cases t) simp_all
  with assms(2) have "isdigit nd c" by simp
  then have c: "c \<noteq> 45" "c \<noteq> 43" using sign_not_digit by auto
  have "INT_MAX_STR_DIGITS < length (filter (isdigit nd) t)"
    using assms(3) by (simp only: filter_digits [OF assms(2)])
  then have "unsigned_literal nd t = None" by (rule unsigned_literal_too_long)
  then show ?thesis using c by (simp add: py_int_str_def assms(1) t)
qed

lemma py_int_str_digits:
  assumes "rev (dropWhile int_space (rev (dropWhile int_space s))) = t"
    and "t \<noteq> []" and "list_all (isdigit nd) t"
  shows "py_int_str nd s
     = (if length t \<le> INT_MAX_STR_DIGITS then Inr (int (decimal nd t)) else Inl ValueError)"
proof (cases "length t \<le> INT_MAX_STR_DIGITS")
  case True
  with py_int_str_core [OF assms True] show ?thesis by simp
next
  case False
  then have "INT_MAX_STR_DIGITS < length t" by simp
  from py_int_str_too_long [OF assms(1,3) this] False show ?thesis by simp
qed

lemma match_event_at_sound:
  assumes "match_event_at nd t = Some g"
  shows "\<exists>post. t = py ''/event/'' @ g @ py ''/'' @ post \<and> g \<noteq> [] \<and> list_all (isdigit nd) g"
proof -
  let ?r = "drop 7 t"
  from assms have p: "take 7 t = py ''/event/''"
    and g: "g = takeWhile (isdigit nd) ?r" and ne: "g \<noteq> []"
    and sl: "take 1 (dropWhile (isdigit nd) ?r) = py ''/''"
    by (auto simp: match_event_at_def Let_def split: if_splits)
  from sl obtain post where d: "dropWhile (isdigit nd) ?r = py ''/'' @ post"
    by (cases "dropWhile (isdigit nd) ?r") (auto simp: py_def)
  have "t = take 7 t @ ?r" by simp
  also have "?r = takeWhile (isdigit nd) ?r @ dropWhile (isdigit nd) ?r" by simp
  finally have "t = py ''/event/'' @ g @ py ''/'' @ post" using p g d by simp
  moreover have "list_all (isdigit nd) g" unfolding g
    by (simp add: list_all_iff) (meson set_takeWhileD)
  ultimately show ?thesis using ne by blast
qed

lemma match_event_at_complete:
  assumes "ds \<noteq> []" "list_all (isdigit nd) ds"
  shows "match_event_at nd (py ''/event/'' @ ds @ py ''/'' @ post) = Some ds"
proof -
  have l: "length (py ''/event/'') = 7" by (simp add: py_def)
  have s: "py ''/'' @ post = 47 # post" by (simp add: py_def)
  have tw: "takeWhile (isdigit nd) (ds @ 47 # post) = ds"
    using assms(2) sign_not_digit(3) by (simp add: takeWhile_append2 list_all_iff)
  have dw: "dropWhile (isdigit nd) (ds @ 47 # post) = 47 # post"
    using assms(2) sign_not_digit(3) by (simp add: dropWhile_append2 list_all_iff)
  show ?thesis
    using assms(1) by (simp add: match_event_at_def l s tw dw) (simp add: py_def)
qed

lemma re_search_event_sound:
  "re_search_event nd s = Some g \<Longrightarrow>
   \<exists>pre post. s = pre @ py ''/event/'' @ g @ py ''/'' @ post \<and> g \<noteq> [] \<and>
     list_all (isdigit nd) g \<and> (\<forall>k<length pre. match_event_at nd (drop k s) = None)"
proof (induction s)
  case Nil
  then show ?case by simp
next
  case (Cons c cs)
  show ?case
  proof (cases "match_event_at nd (c # cs)")
    case (Some g')
    with Cons.prems have "g' = g" by simp
    with Some match_event_at_sound [of nd "c # cs" g] obtain post where
      "c # cs = [] @ py ''/event/'' @ g @ py ''/'' @ post" "g \<noteq> []" "list_all (isdigit nd) g"
      by auto
    then show ?thesis by (metis length_0_conv less_nat_zero_code list.size(3))
  next
    case None
    with Cons.prems have "re_search_event nd cs = Some g" by simp
    from Cons.IH [OF this] obtain pre post where
      s: "cs = pre @ py ''/event/'' @ g @ py ''/'' @ post" and g: "g \<noteq> []" "list_all (isdigit nd) g"
      and m: "\<forall>k<length pre. match_event_at nd (drop k cs) = None" by blast
    have "\<forall>k<length (c # pre). match_event_at nd (drop k (c # cs)) = None"
    proof (intro allI impI)
      fix k assume "k < length (c # pre)"
      then show "match_event_at nd (drop k (c # cs)) = None"
        using None m by (cases k) simp_all
    qed
    moreover have "c # cs = (c # pre) @ py ''/event/'' @ g @ py ''/'' @ post" using s by simp
    ultimately show ?thesis using g by blast
  qed
qed

lemma re_search_event_complete:
  "ds \<noteq> [] \<Longrightarrow> list_all (isdigit nd) ds \<Longrightarrow>
   re_search_event nd (pre @ py ''/event/'' @ ds @ py ''/'' @ post) \<noteq> None"
proof (induction pre)
  case Nil
  have "py ''/event/'' @ ds @ py ''/'' @ post \<noteq> []" by (simp add: py_def)
  then obtain c cs where c: "py ''/event/'' @ ds @ py ''/'' @ post = c # cs"
    by (cases "py ''/event/'' @ ds @ py ''/'' @ post") simp_all
  have "match_event_at nd (c # cs) = Some ds"
    using match_event_at_complete [OF Nil.prems, of post] c by simp
  then show ?case using c by simp
next
  case (Cons c pre)
  then show ?case by (cases "match_event_at nd (c # pre @ py ''/event/'' @ ds @ py ''/'' @ post)") simp_all
qed

lemma digit_not_space:
  assumes "\<And>c. isspace c \<Longrightarrow> nd c = None" and "isdigit nd c"
  shows "\<not> int_space c"
proof
  assume "int_space c"
  then have sp: "isspace c" by (simp add: int_space_def)
  show False
  proof (cases "c < 128")
    case True
    with sp assms(2) show False by (auto simp: isspace_def isdigit_def digit_value_def split: if_splits)
  next
    case False
    with assms(1) [OF sp] assms(2) show False by (simp add: isdigit_def digit_value_def)
  qed
qed

lemma int_strip_digits:
  assumes "\<And>c. isspace c \<Longrightarrow> nd c = None" and "g \<noteq> []" and "list_all (isdigit nd) g"
  shows "rev (dropWhile int_space (rev (dropWhile int_space g))) = g"
proof -
  have hl: "isdigit nd (hd g)" "isdigit nd (last g)"
    using assms(2,3) by (simp_all add: list_all_iff)
  have dn: "\<not> int_space c" if "isdigit nd c" for c
    using assms(1) that by (rule digit_not_space)
  have h: "\<not> int_space (hd g)" and l: "\<not> int_space (last g)"
    using dn hl by blast+
  from assms(2) h have 1: "dropWhile int_space g = g" by (cases g) auto
  from assms(2) l have "rev g \<noteq> []" "\<not> int_space (hd (rev g))" by (simp_all add: hd_rev)
  then have 2: "dropWhile int_space (rev g) = rev g" by (cases "rev g") auto
  show ?thesis by (simp add: 1 2)
qed

lemma parse_event_id_segment:
  assumes "\<And>c. isspace c \<Longrightarrow> nd c = None" and "re_search_event nd s = Some g"
  shows "parse_event_id nd s
     = (if length g \<le> INT_MAX_STR_DIGITS then Inr (int (decimal nd g)) else Inl ValueError)"
proof -
  from re_search_event_sound [OF assms(2)] have ne: "g \<noteq> []" and dg: "list_all (isdigit nd) g"
    by blast+
  have "py_int_str nd g
     = (if length g \<le> INT_MAX_STR_DIGITS then Inr (int (decimal nd g)) else Inl ValueError)"
    using int_strip_digits [OF assms(1) ne dg] ne dg by (rule py_int_str_digits)
  then show ?thesis by (simp add: parse_event_id_def assms(2))
qed

lemma parse_event_id_url:
  assumes "\<And>c. isspace c \<Longrightarrow> nd c = None"
    and "ds \<noteq> []" and "list_all (isdigit nd) ds"
  shows "\<exists>pre' g post'.
     pre @ py ''/event/'' @ ds @ py ''/'' @ post = pre' @ py ''/event/'' @ g @ py ''/'' @ post' \<and>
     g \<noteq> [] \<and> list_all (isdigit nd) g \<and>
     (\<forall>k<length pre'. match_event_at nd (drop k (pre @ py ''/event/'' @ ds @ py ''/'' @ post)) = None) \<and>
     parse_event_id nd (pre @ py ''/event/'' @ ds @ py ''/'' @ post)
       = (if length g \<le> INT_MAX_STR_DIGITS then Inr (int (decimal nd g)) else Inl ValueError)"
proof -
  let ?s = "pre @ py ''/event/'' @ ds @ py ''/'' @ post"
  obtain g where g: "re_search_event nd ?s = Some g"
    using re_search_event_complete [OF assms(2,3), of pre post] by blast
  from re_search_event_sound [OF g] obtain pre' post' where
    s: "?s = pre' @ py ''/event/'' @ g @ py ''/'' @ post'" and ne: "g \<noteq> []"
    and dg: "list_all (isdigit nd) g"
    and lm: "\<forall>k<length pre'. match_event_at nd (drop k ?s) = None" by blast
  have "parse_event_id nd ?s
     = (if length g \<le> INT_MAX_STR_DIGITS then Inr (int (decimal nd g)) else Inl ValueError)"
    using assms(1) g by (rule parse_event_id_segment)
  with s ne dg lm show ?thesis by blast
qed

lemma parse_event_id_digits:
  assumes "re_search_event nd s = None" and "fullmatch_digits nd (strip s)"
    and "\<forall>c\<in>set s. \<not> (28 \<le> c \<and> c \<le> 31)"
  shows "parse_event_id nd s
     = (if length (strip s) \<le> INT_MAX_STR_DIGITS then Inr (int (decimal nd (strip s)))
        else Inl ValueError)"
proof -
  have 1: "dropWhile int_space s = dropWhile isspace s"
    using assms(3) by (intro dropWhile_cong) (auto simp: int_space_def)
  have "set (rev (dropWhile isspace s)) \<subseteq> set s"
    using set_dropWhileD by fastforce
  then have 2: "dropWhile int_space (rev (dropWhile isspace s))
      = dropWhile isspace (rev (dropWhile isspace s))"
    using assms(3) by (intro dropWhile_cong) (auto simp: int_space_def)
  have "rev (dropWhile int_space (rev (dropWhile int_space s))) = strip s"
    by (simp add: 1 2 strip_def)
  then have "py_int_str nd s
     = (if length (strip s) \<le> INT_MAX_STR_DIGITS then Inr (int (decimal nd (strip s)))
        else Inl ValueError)"
    using assms(2) by (intro py_int_str_digits) (simp_all add: fullmatch_digits_def)
  then show ?thesis using assms(1,2) by (simp add: parse_event_id_def)
qed

lemma parse_event_id_other:
  "re_search_event nd s = None \<Longrightarrow> \<not> fullmatch_digits nd (strip s) \<Longrightarrow>
   parse_event_id nd s = Inl ValueError"
  by (simp add: parse_event_id_def)

lemma parse_event_id_docstring_url:
  "parse_event_id nd (py ''https://bracketteam.com/event/6489/2025_Fall_Tip_Off/schedules'') = Inr 6489"
proof -
  have m: "match_event_at nd (py ''/event/'' @ py ''6489'' @ py ''/'' @ py ''2025_Fall_Tip_Off/schedules'')
      = Some (py ''6489'')"
    by (rule match_event_at_complete) (simp_all add: isdigit_def digit_value_def py_def)
  have r: "re_search_event nd (py ''https://bracketteam.com/event/6489/2025_Fall_Tip_Off/schedules'')
      = Some (py ''6489'')"
    using m by (simp add: py_def match_event_at_def)
  have i: "py_int_str nd (py ''6489'') = Inr 6489"
    by (simp add: py_int_str_def int_space_def isspace_def unsigned_literal_def digit_value_def
        isdigit_def INT_MAX_STR_DIGITS_def py_def)
  show ?thesis using r i by (simp add: parse_event_id_def)
qed

section \<open>Properties of the export orchestrator\<close>

lemma str_or_literal:
  "\<exists>d ds. str_or token (str_or env (Some (c # cs))) = Some (d # ds)"
  by (auto simp: str_or_def split: option.splits list.splits)

text \<open>
  Claim C4 says that a run with no token from the command line and none from the
  environment ends with exit code 2 before any network call. In the source the \<open>or\<close>
  chain ends in a non-empty string literal (\<open>c # cs\<close> here), so \<open>token\<close> is never false and
  the branch that returns 2 cannot be reached: such a run goes on with the literal as its
  token and calls the tournament endpoint. With a fetch that fails, it ends with exit
  code 1 after one call of \<open>get_json\<close>, whatever the output file and standard output do.
\<close>

theorem run_without_token_calls_network:
  "run nd (c # cs) (\<lambda>k q. JNull) out (py ''6489'') None None
     = Some \<lparr>ending = Exit 1, calls = 1, rows = []\<rparr>"
  by (simp add: run_def parse_event_id_6489 str_or_def get_divisions_failed)

text \<open>No run of the source ends with exit code 2.\<close>

lemma run_never_exits_2:
  "run nd (c # cs) net out event_ref token env = Some r \<Longrightarrow> ending r \<noteq> Exit 2"
proof -
  assume a: "run nd (c # cs) net out event_ref token env = Some r"
  obtain d ds where t: "str_or token (str_or env (Some (c # cs))) = Some (d # ds)"
    using str_or_literal by blast
  show ?thesis using a unfolding run_def t
    by (auto split: sum.splits list.splits option.splits prod.splits)
qed

subsection \<open>Rows\<close>

lemma write_row_writerow:
  assumes "is_record m"
  shows "write_row div_name rs m = writerow rs (row_of div_name m)"
proof -
  from assms obtain kv where m: "m = JDict kv" by (cases m) (simp_all add: is_record_def)
  obtain t where t: "extract_time m = Inr t" using extractors_trimmed(1) [of kv] m by blast
  obtain l where l: "extract_location m = Inr l" using extractors_trimmed(2) [of kv] m by blast
  obtain c where c: "extract_court m = Inr c" using extractors_trimmed(3) [of kv] m by blast
  obtain h where h: "extract_home m = Inr h" using extractors_trimmed(4) [of kv] m by blast
  obtain a where a: "extract_away m = Inr a" using extractors_trimmed(5) [of kv] m by blast
  show ?thesis by (simp add: write_row_def row_of_def got_def t l c h a)
qed

lemma write_row_record:
  assumes "writable div_name m"
  shows "write_row div_name rs m = Inr (rs @ [row_of div_name m])"
  using assms write_row_writerow [of m div_name rs] by (simp add: writable_def writerow_def)

text \<open>A record whose row holds a surrogate is not written: \<open>UnicodeEncodeError\<close>.\<close>

lemma write_row_not_encodable:
  assumes "is_record m" and "\<not> row_encodable (row_of div_name m)"
  shows "write_row div_name rs m = Inl UnicodeEncodeError"
  using assms write_row_writerow [of m div_name rs] by (simp add: writerow_def)

lemma row_of_empty:
  "row_of div_name (JDict [])
     = \<lparr>game_start_time = [], location = [], court = [], division = div_name,
        home_team = [], away_team = []\<rparr>"
  by (simp add: row_of_def got_def extract_time_def extract_location_def extract_court_def
      extract_home_def extract_away_def dict_get_def py_or_def strip_Nil)

lemma writable_empty: "field_encodable div_name \<Longrightarrow> writable div_name (JDict [])"
  by (simp add: writable_def is_record_def row_of_empty row_encodable_def encodable_def)

lemma for_each_write_row:
  "\<forall>m\<in>set ms. writable div_name m \<Longrightarrow>
   for_each (write_row div_name) ms rs = (None, rs @ map (row_of div_name) ms)"
  by (induction ms arbitrary: rs) (simp_all add: write_row_record)

text \<open>
  Draining the generator into a list and then writing a row per match gives what the
  \<open>for\<close> loop of \<open>run\<close> does with the generator, as long as every match is a record whose
  row can be encoded.
\<close>

lemma iter_loop_rows_aux:
  "iter_loop fetch body page s = Some y \<Longrightarrow>
   body = (\<lambda>acc m. Inr (acc @ [m])) \<longrightarrow>
   (\<forall>n acc'. y = (None, n, acc') \<longrightarrow>
     (\<exists>ms. acc' = s @ ms \<and>
       ((\<forall>m\<in>set ms. writable div_name m) \<longrightarrow>
        (\<forall>rs. iter_loop fetch (write_row div_name) page rs
           = Some (None, n, rs @ map (row_of div_name) ms)))))"
proof (induction fetch body page s y rule: iter_loop.raw_induct [rotated 1, consumes 1, case_names step])
  case (step f fetch body page s y)
  note IH = step(1) and step = step(2)
  show ?case
  proof (intro impI allI)
  fix n acc'
  assume body: "body = (\<lambda>acc m. Inr (acc @ [m]))" and y: "y = (None, n, acc')"
  show "\<exists>ms. acc' = s @ ms \<and>
       ((\<forall>m\<in>set ms. writable div_name m) \<longrightarrow>
        (\<forall>rs. iter_loop fetch (write_row div_name) page rs
           = Some (None, n, rs @ map (row_of div_name) ms)))"
  proof (cases "page_matches (fetch page)")
    case (Inl e)
    with step y show ?thesis by simp
  next
    case (Inr matches)
    show ?thesis
    proof (cases "truthy matches")
      case False
      with step y Inr have "n = page" "acc' = s" by simp_all
      moreover have "\<forall>rs. iter_loop fetch (write_row div_name) page rs = Some (None, page, rs)"
        using Inr False by (subst iter_loop.simps) simp
      ultimately show ?thesis by simp
    next
      case True
      show ?thesis
      proof (cases "py_iter matches")
        case (Inl e)
        with step y Inr True show ?thesis by simp
      next
        case items: (Inr items)
        have fe: "for_each body items s = (None, s @ items)"
          by (simp add: body for_each_collect)
        show ?thesis
        proof (cases "length items < MATCHES_PER_PAGE")
          case short: True
          with step y Inr True items fe have "n = page" "acc' = s @ items" by simp_all
          moreover have "(\<forall>m\<in>set items. writable div_name m) \<longrightarrow>
            (\<forall>rs. iter_loop fetch (write_row div_name) page rs
               = Some (None, page, rs @ map (row_of div_name) items))"
            using Inr True items short
            by (subst iter_loop.simps) (simp add: for_each_write_row)
          ultimately show ?thesis by blast
        next
          case full: False
          with step Inr True items fe have "f fetch body (page + 1) (s @ items) = Some y"
            by simp
          from IH [OF this] body y obtain ms' where
            a: "acc' = (s @ items) @ ms'" and
            r: "(\<forall>m\<in>set ms'. writable div_name m) \<longrightarrow>
              (\<forall>rs. iter_loop fetch (write_row div_name) (page + 1) rs
                 = Some (None, n, rs @ map (row_of div_name) ms'))"
            by blast
          have "(\<forall>m\<in>set (items @ ms'). writable div_name m) \<longrightarrow>
            (\<forall>rs. iter_loop fetch (write_row div_name) page rs
               = Some (None, n, rs @ map (row_of div_name) (items @ ms')))"
          proof (intro impI allI)
            fix rs assume rec: "\<forall>m\<in>set (items @ ms'). writable div_name m"
            then have fw: "for_each (write_row div_name) items rs
                = (None, rs @ map (row_of div_name) items)"
              by (intro for_each_write_row) simp
            have "iter_loop fetch (write_row div_name) page rs
                = iter_loop fetch (write_row div_name) (page + 1) (rs @ map (row_of div_name) items)"
              using Inr True items full fw by (subst iter_loop.simps) simp
            also have "\<dots> = Some (None, n, (rs @ map (row_of div_name) items) @ map (row_of div_name) ms')"
              using r rec by simp
            finally show "iter_loop fetch (write_row div_name) page rs
                = Some (None, n, rs @ map (row_of div_name) (items @ ms'))"
              by simp
          qed
          with a show ?thesis by (metis append.assoc)
        qed
      qed
    qed
  qed
qed
qed

lemma iter_matches_rows:
  assumes "iter_matches fetch = Some (None, n, ms)" and "\<forall>m\<in>set ms. writable div_name m"
  shows "iter_loop fetch (write_row div_name) 1 rs = Some (None, n, rs @ map (row_of div_name) ms)"
  using iter_loop_rows_aux [of fetch "\<lambda>acc m. Inr (acc @ [m])" 1 "[]" "(None, n, ms)" div_name] assms
  by (simp add: iter_matches_def)

lemma run_divisions_rows:
  "paginations net tid divs c = Some (mss, c') \<Longrightarrow> all_writable divs mss \<Longrightarrow>
   run_divisions net tid divs c rs = Some (None, c', rs @ rows_of divs mss)"
proof (induction divs arbitrary: c rs mss)
  case Nil
  then show ?case by simp
next
  case (Cons d divs)
  obtain div_id div_name where d: "d = (div_id, div_name)" by (cases d)
  let ?fetch = "\<lambda>p. net (c + p) (DivisionSchedule tid div_id p)"
  from Cons.prems(1) obtain n ms mss' where
    it: "iter_matches ?fetch = Some (None, n, ms)" and
    rest: "paginations net tid divs (c + n) = Some (mss', c')" and
    mss: "mss = ms # mss'"
    unfolding d by (auto split: option.splits prod.splits)
  from Cons.prems(2) mss have rec: "\<forall>m\<in>set ms. writable div_name m"
    and rec': "all_writable divs mss'" by (simp_all add: d list_all_iff)
  have "iter_loop ?fetch (write_row div_name) 1 rs = Some (None, n, rs @ map (row_of div_name) ms)"
    using it rec by (rule iter_matches_rows)
  moreover have "run_divisions net tid divs (c + n) (rs @ map (row_of div_name) ms)
      = Some (None, c', (rs @ map (row_of div_name) ms) @ rows_of divs mss')"
    using rest rec' by (rule Cons.IH)
  ultimately show ?case by (simp add: d mss)
qed

lemma division_row_of: "division (row_of div_name m) = div_name"
  by (simp add: row_of_def)

lemma division_rows_of:
  "map division (rows_of divs mss)
     = concat (map (\<lambda>(d, ms). replicate (length ms) (snd d)) (zip divs mss))"
proof (induction divs mss rule: rows_of.induct)
  case (1 div_id div_name rest ms mss)
  then show ?case by (simp add: division_row_of map_replicate_const comp_def)
qed simp_all

lemma run_rows:
  assumes "parse_event_id nd event_ref = Inr tid"
    and "get_divisions nd (net 1 (PublicTournament tid)) = Inr divs" and "divs \<noteq> []"
    and "paginations net tid divs 1 = Some (mss, c')"
    and "all_writable divs mss"
  shows "run nd (l # ls) net \<lparr>open_raises = None, print_raises = None\<rparr> event_ref token env
     = Some \<lparr>ending = Exit 0, calls = c', rows = rows_of divs mss\<rparr>"
proof -
  obtain d ds where t: "str_or token (str_or env (Some (l # ls))) = Some (d # ds)"
    using str_or_literal by blast
  obtain v vs where v: "divs = v # vs" using assms(3) by (cases divs) simp_all
  have "run_divisions net tid divs 1 [] = Some (None, c', [] @ rows_of divs mss)"
    using assms(4,5) by (rule run_divisions_rows)
  then show ?thesis
    using assms(1,2) unfolding run_def t v by simp
qed

lemma iter_matches_one_page:
  "page_matches (fetch 1) = Inr (JList ms) \<Longrightarrow> length ms < MATCHES_PER_PAGE \<Longrightarrow>
   iter_matches fetch = Some (None, 1, ms)"
  using iter_step_last [of fetch 1 ms "\<lambda>acc m. Inr (acc @ [m])" "[]" ms]
  by (simp add: iter_matches_def for_each_collect)

lemma two_divisions_enumerated:
  "get_divisions nd (two_divisions i1 i2 xs ys 1 q) = Inr [(i1, JStr (py ''A'')), (i2, JStr (py ''B''))]"
proof -
  have p: "\<forall>d\<in>set [JDict [(py ''id'', JInt i1), (py ''division_name'', JStr (py ''A''))],
                  JDict [(py ''id'', JInt i2), (py ''division_name'', JStr (py ''B''))]]. plain_record d"
    by (simp add: plain_record_def dict_get_def)
  show ?thesis
    using get_divisions_response [OF p, of nd]
    by (simp add: two_divisions_def List.map_filter_simps division_of_def display_name_def
          dict_get_def py_def)
qed

lemma two_divisions_paginated:
  assumes "length xs < 20" "length ys < 20"
  shows "paginations (two_divisions i1 i2 xs ys) tid [(i1, JStr (py ''A'')), (i2, JStr (py ''B''))] 1
     = Some ([xs, ys], 3)"
proof -
  have a: "iter_matches (\<lambda>p. two_divisions i1 i2 xs ys (1 + p) (DivisionSchedule tid i1 p))
      = Some (None, 1, xs)"
    using assms
    by (intro iter_matches_one_page)
       (simp_all add: two_divisions_def page_matches_response MATCHES_PER_PAGE_def)
  have b: "iter_matches (\<lambda>p. two_divisions i1 i2 xs ys (1 + 1 + p) (DivisionSchedule tid i2 p))
      = Some (None, 1, ys)"
    using assms
    by (intro iter_matches_one_page)
       (simp_all add: two_divisions_def page_matches_response MATCHES_PER_PAGE_def)
  have "paginations (two_divisions i1 i2 xs ys) tid [(i1, JStr (py ''A'')), (i2, JStr (py ''B''))] 1
     = Some ([xs, ys], 1 + 1 + 1)"
    by (simp only: paginations.simps a b option.case prod.case)
  then show ?thesis by (simp only: one_add_one numeral_plus_one semiring_norm)
qed

lemma run_two_divisions:
  assumes "length xs = 3" "length ys = 3"
    and "\<forall>m\<in>set xs. writable (JStr (py ''A'')) m" "\<forall>m\<in>set ys. writable (JStr (py ''B'')) m"
  shows "run nd (l # ls) (two_divisions i1 i2 xs ys)
              \<lparr>open_raises = None, print_raises = None\<rparr> (py ''6489'') token env
     = Some \<lparr>ending = Exit 0, calls = 3,
              rows = map (row_of (JStr (py ''A''))) xs @ map (row_of (JStr (py ''B''))) ys\<rparr>"
proof -
  have pg: "paginations (two_divisions i1 i2 xs ys) 6489
      [(i1, JStr (py ''A'')), (i2, JStr (py ''B''))] 1 = Some ([xs, ys], 3)"
    using assms by (intro two_divisions_paginated) simp_all
  have rec: "all_writable [(i1, JStr (py ''A'')), (i2, JStr (py ''B''))] [xs, ys]"
    using assms by (simp add: list_all_iff)
  have "run nd (l # ls) (two_divisions i1 i2 xs ys)
              \<lparr>open_raises = None, print_raises = None\<rparr> (py ''6489'') token env
      = Some \<lparr>ending = Exit 0, calls = 3,
               rows = rows_of [(i1, JStr (py ''A'')), (i2, JStr (py ''B''))] [xs, ys]\<rparr>"
    using parse_event_id_6489 two_divisions_enumerated _ pg rec by (rule run_rows) simp
  then show ?thesis by simp
qed

text \<open>
  The ways in which a run that found divisions does not end with exit code 0: the file
  does not open, a row cannot be encoded, the closing message cannot be printed.
\<close>

lemma run_open_fails:
  assumes "parse_event_id nd event_ref = Inr tid"
    and "get_divisions nd (net 1 (PublicTournament tid)) = Inr divs" and "divs \<noteq> []"
  shows "run nd (l # ls) net \<lparr>open_raises = Some OSError, print_raises = p\<rparr> event_ref token env
     = Some \<lparr>ending = Raised OSError, calls = 1, rows = []\<rparr>"
proof -
  obtain d ds where t: "str_or token (str_or env (Some (l # ls))) = Some (d # ds)"
    using str_or_literal by blast
  obtain v vs where v: "divs = v # vs" using assms(3) by (cases divs) simp_all
  show ?thesis using assms(1,2) unfolding run_def t v by simp
qed

lemma run_print_fails:
  assumes "parse_event_id nd event_ref = Inr tid"
    and "get_divisions nd (net 1 (PublicTournament tid)) = Inr divs" and "divs \<noteq> []"
    and "paginations net tid divs 1 = Some (mss, c')"
    and "all_writable divs mss"
  shows "run nd (l # ls) net \<lparr>open_raises = None, print_raises = Some e\<rparr> event_ref token env
     = Some \<lparr>ending = Raised e, calls = c', rows = rows_of divs mss\<rparr>"
proof -
  obtain d ds where t: "str_or token (str_or env (Some (l # ls))) = Some (d # ds)"
    using str_or_literal by blast
  obtain v vs where v: "divs = v # vs" using assms(3) by (cases divs) simp_all
  have "run_divisions net tid divs 1 [] = Some (None, c', [] @ rows_of divs mss)"
    using assms(4,5) by (rule run_divisions_rows)
  then show ?thesis
    using assms(1,2) unfolding run_def t v by simp
qed

lemma run_surrogate_raises:
  "run nd (l # ls)
     (two_divisions i1 i2 [JDict []] [JDict [(py ''court'', JStr [55296])], JDict []])
     \<lparr>open_raises = None, print_raises = p\<rparr> (py ''6489'') token env
   = Some \<lparr>ending = Raised UnicodeEncodeError, calls = 3,
            rows = [row_of (JStr (py ''A'')) (JDict [])]\<rparr>"
proof -
  let ?net = "two_divisions i1 i2 [JDict []] [JDict [(py ''court'', JStr [55296])], JDict []]"
  let ?bad = "JDict [(py ''court'', JStr [55296])]"
  obtain d ds where t: "str_or token (str_or env (Some (l # ls))) = Some (d # ds)"
    using str_or_literal by blast
  have wa: "writable (JStr (py ''A'')) (JDict [])"
    by (rule writable_empty) (simp add: field_encodable_def encodable_def surrogate_def py_def)
  have a: "iter_loop (\<lambda>p. ?net (1 + p) (DivisionSchedule 6489 i1 p)) (write_row (JStr (py ''A''))) 1 []
      = Some (None, 1, [row_of (JStr (py ''A'')) (JDict [])])"
    by (subst iter_loop.simps)
       (simp add: two_divisions_def page_matches_response MATCHES_PER_PAGE_def
          write_row_record [OF wa])
  have c: "extract_court ?bad = Inr [55296]"
    by (simp add: extract_court_def dict_get_def py_def strip_def isspace_def)
  have r: "is_record ?bad" by (simp add: is_record_def)
  have "\<not> row_encodable (row_of (JStr (py ''B'')) ?bad)"
    by (simp add: row_of_def got_def c row_encodable_def encodable_def surrogate_def)
  with r have wb: "write_row (JStr (py ''B'')) rs ?bad = Inl UnicodeEncodeError" for rs
    by (rule write_row_not_encodable)
  have b: "iter_loop (\<lambda>p. ?net (1 + 1 + p) (DivisionSchedule 6489 i2 p)) (write_row (JStr (py ''B''))) 1
        [row_of (JStr (py ''A'')) (JDict [])]
      = Some (Some UnicodeEncodeError, 1, [row_of (JStr (py ''A'')) (JDict [])])"
    by (subst iter_loop.simps)
       (simp add: two_divisions_def page_matches_response MATCHES_PER_PAGE_def wb)
  have "run_divisions ?net 6489 [(i1, JStr (py ''A'')), (i2, JStr (py ''B''))] 1 []
      = Some (Some UnicodeEncodeError, 1 + 1 + 1, [row_of (JStr (py ''A'')) (JDict [])])"
    by (simp only: run_divisions.simps a b option.case prod.case)
  then have "run_divisions ?net 6489 [(i1, JStr (py ''A'')), (i2, JStr (py ''B''))] 1 []
      = Some (Some UnicodeEncodeError, 3, [row_of (JStr (py ''A'')) (JDict [])])"
    by (simp only: one_add_one numeral_plus_one semiring_norm)
  then show ?thesis
    using parse_event_id_6489 [of nd] two_divisions_enumerated [of nd i1 i2]
    unfolding run_def t by simp
qed

subsection \<open>The division field of the rows of any run\<close>

text \<open>
  Whatever a run meets, the rows it has written when it ends carry the display names in
  the order of the enumerator: some rows with the first display name, then some with the
  second, and so on, up to the division at which the run ended.
\<close>

lemma write_row_division:
  "write_row dn rs m = Inr rs' \<Longrightarrow> \<exists>r. rs' = rs @ [r] \<and> division r = dn"
  by (auto simp: write_row_def writerow_def split: sum.splits if_splits)

lemma for_each_write_row_division:
  "for_each (write_row dn) ms rs = (e, rs') \<Longrightarrow>
   \<exists>new. rs' = rs @ new \<and> map division new = replicate (length new) dn"
proof (induction ms arbitrary: rs)
  case Nil
  then show ?case by simp
next
  case (Cons m ms)
  show ?case
  proof (cases "write_row dn rs m")
    case (Inl x)
    with Cons.prems show ?thesis by simp
  next
    case (Inr rs1)
    then obtain r where r: "rs1 = rs @ [r]" "division r = dn"
      using write_row_division by blast
    from Cons.prems Inr have "for_each (write_row dn) ms rs1 = (e, rs')" by simp
    from Cons.IH [OF this] obtain new where
      n: "rs' = rs1 @ new" "map division new = replicate (length new) dn" by blast
    have "rs' = rs @ (r # new)" using n(1) r(1) by simp
    moreover have "map division (r # new) = replicate (length (r # new)) dn"
      using n(2) r(2) by simp
    ultimately show ?thesis by blast
  qed
qed

lemma iter_loop_division_aux:
  "iter_loop fetch body page rs = Some y \<Longrightarrow>
   body = write_row dn \<longrightarrow>
   (\<exists>new. snd (snd y) = rs @ new \<and> map division new = replicate (length new) dn)"
proof (induction fetch body page rs y rule: iter_loop.raw_induct [rotated 1, consumes 1, case_names step])
  case (step f fetch body page rs y)
  note IH = step(1) and step = step(2)
  show ?case
  proof
    assume body: "body = write_row dn"
    show "\<exists>new. snd (snd y) = rs @ new \<and> map division new = replicate (length new) dn"
    proof (cases "page_matches (fetch page)")
      case (Inl e)
      with step show ?thesis by auto
    next
      case (Inr matches)
      show ?thesis
      proof (cases "truthy matches")
        case False
        with step Inr show ?thesis by auto
      next
        case True
        show ?thesis
        proof (cases "py_iter matches")
          case (Inl e)
          with step Inr True show ?thesis by auto
        next
          case items: (Inr items)
          obtain e rs1 where fe: "for_each body items rs = (e, rs1)"
            by (cases "for_each body items rs")
          from fe body obtain new1 where
            n1: "rs1 = rs @ new1" "map division new1 = replicate (length new1) dn"
            using for_each_write_row_division by blast
          show ?thesis
          proof (cases "e = None \<and> \<not> length items < MATCHES_PER_PAGE")
            case False
            with step Inr True items fe have "snd (snd y) = rs1"
              by (cases e) (auto split: if_splits)
            with n1 show ?thesis by blast
          next
            case go: True
            with step Inr True items fe have "f fetch body (page + 1) rs1 = Some y" by simp
            from IH [OF this] body obtain new2 where
              n2: "snd (snd y) = rs1 @ new2" "map division new2 = replicate (length new2) dn"
              by blast
            have "snd (snd y) = rs @ (new1 @ new2)" using n1(1) n2(1) by simp
            moreover have "map division (new1 @ new2) = replicate (length (new1 @ new2)) dn"
              using n1(2) n2(2) by (simp add: replicate_add)
            ultimately show ?thesis by blast
          qed
        qed
      qed
    qed
  qed
qed

lemma iter_loop_division:
  "iter_loop fetch (write_row dn) page rs = Some (e, n, rs') \<Longrightarrow>
   \<exists>k. map division rs' = map division rs @ replicate k dn"
  using iter_loop_division_aux [of fetch "write_row dn" page rs "(e, n, rs')" dn]
  by auto

lemma run_divisions_division:
  "run_divisions net tid divs c rs = Some (e, n, rs') \<Longrightarrow>
   \<exists>ks. length ks \<le> length divs \<and>
     map division rs'
       = map division rs @ concat (map (\<lambda>(d, k). replicate k (snd d)) (zip divs ks))"
proof (induction divs arbitrary: c rs)
  case Nil
  then show ?case by simp
next
  case (Cons d divs)
  obtain div_id div_name where d: "d = (div_id, div_name)" by (cases d)
  let ?it = "iter_loop (\<lambda>p. net (c + p) (DivisionSchedule tid div_id p)) (write_row div_name) 1 rs"
  from Cons.prems obtain e1 n1 rs1 where it: "?it = Some (e1, n1, rs1)"
    unfolding d by (auto split: option.splits)
  from iter_loop_division [OF it] obtain k where
    k: "map division rs1 = map division rs @ replicate k div_name" by blast
  show ?case
  proof (cases e1)
    case (Some x)
    with Cons.prems it have "rs' = rs1" unfolding d by simp
    with k have "length [k] \<le> length (d # divs) \<and>
      map division rs' = map division rs
        @ concat (map (\<lambda>(d, k). replicate k (snd d)) (zip (d # divs) [k]))"
      by (simp add: d)
    then show ?thesis by blast
  next
    case None
    with Cons.prems it have "run_divisions net tid divs (c + n1) rs1 = Some (e, n, rs')"
      unfolding d by simp
    from Cons.IH [OF this] obtain ks where
      ks: "length ks \<le> length divs"
        "map division rs' = map division rs1
           @ concat (map (\<lambda>(d, k). replicate k (snd d)) (zip divs ks))" by blast
    have "length (k # ks) \<le> length (d # divs) \<and>
      map division rs' = map division rs
        @ concat (map (\<lambda>(d, k). replicate k (snd d)) (zip (d # divs) (k # ks)))"
      using ks k by (simp add: d)
    then show ?thesis by blast
  qed
qed

lemma run_division_fields:
  assumes "parse_event_id nd event_ref = Inr tid"
    and "get_divisions nd (net 1 (PublicTournament tid)) = Inr divs"
    and "run nd (l # ls) net out event_ref token env = Some r"
  shows "\<exists>ks. length ks \<le> length divs \<and>
    map division (rows r) = concat (map (\<lambda>(d, k). replicate k (snd d)) (zip divs ks))"
proof -
  obtain d ds where t: "str_or token (str_or env (Some (l # ls))) = Some (d # ds)"
    using str_or_literal by blast
  show ?thesis
  proof (cases "divs = [] \<or> open_raises out \<noteq> None")
    case True
    with assms have "rows r = []" unfolding run_def t
      by (auto split: list.splits option.splits)
    then have "length ([] :: nat list) \<le> length divs \<and>
      map division (rows r) = concat (map (\<lambda>(d, k). replicate k (snd d)) (zip divs []))"
      by simp
    then show ?thesis by blast
  next
    case False
    then obtain v vs where v: "divs = v # vs" and o: "open_raises out = None"
      by (cases divs) auto
    from assms o obtain e n rs where
      rd: "run_divisions net tid divs 1 [] = Some (e, n, rs)" and rs: "rows r = rs"
      unfolding run_def t v by (auto split: option.splits)
    from run_divisions_division [OF rd] rs show ?thesis by auto
  qed
qed

text \<open>
  Claim C9. In every run that writes its output (the output file opens, every match is a
  record whose row can be encoded in UTF-8, and the closing message is printed), the rows
  are those of \<open>rows_of\<close>: division after division in the order of the enumerator, and for
  each division the rows of the matches its pagination yielded, in the order yielded (which
  is page fetch order). The division field of every row is the display name of the division
  whose pagination produced it. In every run that ends, also one that an exception ends
  after some rows, the division fields of the rows written are the display names in the
  order of the enumerator, each a number of times. A tournament with 2 divisions, each with
  one page of 3 matches, produces exactly 6 rows, three with the first display name and
  then three with the second, whatever the internal division ids \<open>i1\<close> and \<open>i2\<close> are.
\<close>

theorem run_rows_by_division:
  "(parse_event_id nd event_ref = Inr tid \<and>
    get_divisions nd (net 1 (PublicTournament tid)) = Inr divs \<and> divs \<noteq> [] \<and>
    paginations net tid divs 1 = Some (mss, c') \<and> all_writable divs mss
      \<longrightarrow> run nd (l # ls) net \<lparr>open_raises = None, print_raises = None\<rparr> event_ref token env
            = Some \<lparr>ending = Exit 0, calls = c', rows = rows_of divs mss\<rparr>) \<and>
   division (row_of div_name m) = div_name \<and>
   map division (rows_of divs mss)
     = concat (map (\<lambda>(d, ms). replicate (length ms) (snd d)) (zip divs mss)) \<and>
   (parse_event_id nd event_ref = Inr tid \<and>
    get_divisions nd (net 1 (PublicTournament tid)) = Inr divs \<and>
    run nd (l # ls) net out event_ref token env = Some r
      \<longrightarrow> (\<exists>ks. length ks \<le> length divs \<and>
             map division (rows r)
               = concat (map (\<lambda>(d, k). replicate k (snd d)) (zip divs ks)))) \<and>
   (length xs = 3 \<and> length ys = 3 \<and> (\<forall>m\<in>set xs. writable (JStr (py ''A'')) m) \<and>
    (\<forall>m\<in>set ys. writable (JStr (py ''B'')) m)
      \<longrightarrow> run nd (l # ls) (two_divisions i1 i2 xs ys)
              \<lparr>open_raises = None, print_raises = None\<rparr> (py ''6489'') token env
            = Some \<lparr>ending = Exit 0, calls = 3,
                     rows = map (row_of (JStr (py ''A''))) xs @ map (row_of (JStr (py ''B''))) ys\<rparr> \<and>
          length (map (row_of (JStr (py ''A''))) xs @ map (row_of (JStr (py ''B''))) ys) = 6 \<and>
          map division (map (row_of (JStr (py ''A''))) xs @ map (row_of (JStr (py ''B''))) ys)
            = replicate 3 (JStr (py ''A'')) @ replicate 3 (JStr (py ''B'')))"
proof -
  have g: "parse_event_id nd event_ref = Inr tid \<and>
    get_divisions nd (net 1 (PublicTournament tid)) = Inr divs \<and> divs \<noteq> [] \<and>
    paginations net tid divs 1 = Some (mss, c') \<and> all_writable divs mss
      \<longrightarrow> run nd (l # ls) net \<lparr>open_raises = None, print_raises = None\<rparr> event_ref token env
            = Some \<lparr>ending = Exit 0, calls = c', rows = rows_of divs mss\<rparr>"
    using run_rows [of nd event_ref tid net divs mss c' l ls token env] by blast
  have e: "length xs = 3 \<and> length ys = 3 \<and> (\<forall>m\<in>set xs. writable (JStr (py ''A'')) m) \<and>
    (\<forall>m\<in>set ys. writable (JStr (py ''B'')) m)
      \<longrightarrow> run nd (l # ls) (two_divisions i1 i2 xs ys)
              \<lparr>open_raises = None, print_raises = None\<rparr> (py ''6489'') token env
            = Some \<lparr>ending = Exit 0, calls = 3,
                     rows = map (row_of (JStr (py ''A''))) xs @ map (row_of (JStr (py ''B''))) ys\<rparr>"
    using run_two_divisions [of xs ys nd l ls i1 i2 token env] by blast
  have n: "length xs = 3 \<and> length ys = 3 \<longrightarrow>
      length (map (row_of (JStr (py ''A''))) xs @ map (row_of (JStr (py ''B''))) ys) = 6 \<and>
      map division (map (row_of (JStr (py ''A''))) xs @ map (row_of (JStr (py ''B''))) ys)
        = replicate 3 (JStr (py ''A'')) @ replicate 3 (JStr (py ''B''))"
    by (auto simp: division_row_of comp_def map_replicate_const)
  have f: "parse_event_id nd event_ref = Inr tid \<and>
    get_divisions nd (net 1 (PublicTournament tid)) = Inr divs \<and>
    run nd (l # ls) net out event_ref token env = Some r
      \<longrightarrow> (\<exists>ks. length ks \<le> length divs \<and>
             map division (rows r)
               = concat (map (\<lambda>(d, k). replicate k (snd d)) (zip divs ks)))"
    using run_division_fields [of nd event_ref tid net divs l ls out token env r] by blast
  show ?thesis
    using g e n f division_row_of [of div_name m] division_rows_of [of divs mss]
    by blast
qed

theorem run_rows_by_division_witness:
  "parse_event_id (\<lambda>c. None) (py ''6489'') = Inr 6489 \<and>
   get_divisions (\<lambda>c. None)
     (two_divisions 11 22 [JDict [], JDict [], JDict []] [JDict [], JDict [], JDict []] 1
        (PublicTournament 6489))
     = Inr [(11, JStr (py ''A'')), (22, JStr (py ''B''))] \<and>
   paginations (two_divisions 11 22 [JDict [], JDict [], JDict []] [JDict [], JDict [], JDict []])
     6489 [(11, JStr (py ''A'')), (22, JStr (py ''B''))] 1
     = Some ([[JDict [], JDict [], JDict []], [JDict [], JDict [], JDict []]], 3) \<and>
   all_writable [(11, JStr (py ''A'')), (22, JStr (py ''B''))]
     [[JDict [], JDict [], JDict []], [JDict [], JDict [], JDict []]] \<and>
   run (\<lambda>c. None) (py ''token'')
     (two_divisions 11 22 [JDict [], JDict [], JDict []] [JDict [], JDict [], JDict []])
     \<lparr>open_raises = None, print_raises = None\<rparr> (py ''6489'') None None
     = Some \<lparr>ending = Exit 0, calls = 3,
              rows = rows_of [(11, JStr (py ''A'')), (22, JStr (py ''B''))]
                [[JDict [], JDict [], JDict []], [JDict [], JDict [], JDict []]]\<rparr> \<and>
   (\<exists>ks. length ks \<le> length [(11 :: int, JStr (py ''A'')), (22, JStr (py ''B''))] \<and>
      map division (rows_of [(11, JStr (py ''A'')), (22, JStr (py ''B''))]
                [[JDict [], JDict [], JDict []], [JDict [], JDict [], JDict []]])
        = concat (map (\<lambda>(d, k). replicate k (snd d))
            (zip [(11 :: int, JStr (py ''A'')), (22, JStr (py ''B''))] ks))) \<and>
   length [JDict [], JDict [], JDict []] = 3 \<and>
   writable (JStr (py ''A'')) (JDict []) \<and> writable (JStr (py ''B'')) (JDict []) \<and>
   run (\<lambda>c. None) (py ''token'')
     (two_divisions 11 22 [JDict [], JDict [], JDict []] [JDict [], JDict [], JDict []])
     \<lparr>open_raises = None, print_raises = None\<rparr> (py ''6489'') None None
     = Some \<lparr>ending = Exit 0, calls = 3,
              rows = map (row_of (JStr (py ''A''))) [JDict [], JDict [], JDict []]
                @ map (row_of (JStr (py ''B''))) [JDict [], JDict [], JDict []]\<rparr> \<and>
   length (map (row_of (JStr (py ''A''))) [JDict [], JDict [], JDict []]
     @ map (row_of (JStr (py ''B''))) [JDict [], JDict [], JDict []]) = 6 \<and>
   map division (map (row_of (JStr (py ''A''))) [JDict [], JDict [], JDict []]
     @ map (row_of (JStr (py ''B''))) [JDict [], JDict [], JDict []])
     = replicate 3 (JStr (py ''A'')) @ replicate 3 (JStr (py ''B''))"
proof -
  let ?xs = "[JDict [], JDict [], JDict []]"
  let ?divs = "[(11 :: int, JStr (py ''A'')), (22, JStr (py ''B''))]"
  have p: "parse_event_id (\<lambda>c. None) (py ''6489'') = Inr 6489" by (rule parse_event_id_6489)
  have g: "get_divisions (\<lambda>c. None) (two_divisions 11 22 ?xs ?xs 1 (PublicTournament 6489)) = Inr ?divs"
    by (rule two_divisions_enumerated)
  have pg: "paginations (two_divisions 11 22 ?xs ?xs) 6489 ?divs 1 = Some ([?xs, ?xs], 3)"
    by (rule two_divisions_paginated) simp_all
  have wa: "writable (JStr (py ''A'')) (JDict [])"
    by (rule writable_empty) (simp add: field_encodable_def encodable_def surrogate_def py_def)
  have wb: "writable (JStr (py ''B'')) (JDict [])"
    by (rule writable_empty) (simp add: field_encodable_def encodable_def surrogate_def py_def)
  have w: "all_writable ?divs [?xs, ?xs]" using wa wb by simp
  have t: "py ''token'' = 116 # py ''oken''" by (simp add: py_def)
  have ne: "?divs \<noteq> []" by simp
  let ?out = "\<lparr>open_raises = None, print_raises = None\<rparr>"
  let ?r = "\<lparr>ending = Exit 0, calls = 3, rows = rows_of ?divs [?xs, ?xs]\<rparr>"
  note inst = run_rows_by_division [of "\<lambda>c. None" "py ''6489''" 6489 "two_divisions 11 22 ?xs ?xs"
        ?divs "[?xs, ?xs]" 3 116 "py ''oken''" None None _ _ ?out ?r ?xs ?xs 11 22]
  have r: "run (\<lambda>c. None) (116 # py ''oken'') (two_divisions 11 22 ?xs ?xs) ?out
        (py ''6489'') None None = Some ?r"
    using inst [THEN conjunct1] p g pg w ne by blast
  have k: "\<exists>ks. length ks \<le> length ?divs \<and>
      map division (rows ?r) = concat (map (\<lambda>(d, k). replicate k (snd d)) (zip ?divs ks))"
    using inst [THEN conjunct2, THEN conjunct2, THEN conjunct2, THEN conjunct1] p g r by blast
  have k': "\<exists>ks. length ks \<le> length ?divs \<and>
      map division (rows_of ?divs [?xs, ?xs])
        = concat (map (\<lambda>(d, k). replicate k (snd d)) (zip ?divs ks))"
    using k by (simp only: run_result.select_convs)
  have len: "length ?xs = 3" by simp
  have b: "\<forall>m\<in>set ?xs. writable (JStr (py ''A'')) m" "\<forall>m\<in>set ?xs. writable (JStr (py ''B'')) m"
    using wa wb by simp_all
  have x: "run (\<lambda>c. None) (116 # py ''oken'') (two_divisions 11 22 ?xs ?xs) ?out
        (py ''6489'') None None
      = Some \<lparr>ending = Exit 0, calls = 3,
               rows = map (row_of (JStr (py ''A''))) ?xs @ map (row_of (JStr (py ''B''))) ?xs\<rparr> \<and>
     length (map (row_of (JStr (py ''A''))) ?xs @ map (row_of (JStr (py ''B''))) ?xs) = 6 \<and>
     map division (map (row_of (JStr (py ''A''))) ?xs @ map (row_of (JStr (py ''B''))) ?xs)
       = replicate 3 (JStr (py ''A'')) @ replicate 3 (JStr (py ''B''))"
    using inst [THEN conjunct2, THEN conjunct2, THEN conjunct2, THEN conjunct2] len b by blast
  show ?thesis using p g pg w r k' len wa wb x by (simp only: t simp_thms)
qed

subsection \<open>The division field\<close>



end
